theory Spec2Isabelle
  imports Main "HOL-Library.AList"
begin

section \<open>Data model\<close>

subsection \<open>Telemetry level, product configuration, derived enablement\<close>

text \<open>
  Modelled from the spec: the enum \<open>TelemetryLevel\<close> is imported from
  \<open>vs/platform/telemetry/common/telemetry\<close>, which is not among the sources. The spec
  gives it as the ordered enum NONE < CRASH < ERROR < USAGE; the source compares its
  members as numbers, so the model compares their positions.
\<close>

datatype TelemetryLevel = NONE | CRASH | ERROR | USAGE

fun level_num :: "TelemetryLevel \<Rightarrow> nat" where
  "level_num NONE = 0"
| "level_num CRASH = 1"
| "level_num ERROR = 2"
| "level_num USAGE = 3"

record ProductConfig =
  usage :: bool
  error :: bool

text \<open>
  \<open>{ isUsageEnabled, isErrorsEnabled }\<close> is the snapshot a logger caches;
  \<open>vscode.TelemetryConfiguration\<close> has the same two fields and \<open>isCrashEnabled\<close>.
\<close>

record Enablements =
  isUsageEnabled :: bool
  isErrorsEnabled :: bool

record TelemetryConfiguration = Enablements +
  isCrashEnabled :: bool

subsection \<open>Event payloads\<close>

text \<open>
  A payload is a \<open>Record<string, any>\<close>: an object whose keys keep their insertion
  order, so an association list read with \<open>map_of\<close> and written with \<open>AList.update\<close>.
  Numbers are carried, never computed with.
\<close>

datatype jsval =
    JUndefined
  | JNull
  | JBool bool
  | JNum int
  | JStr string
  | JObj "(string \<times> jsval) list"

type_synonym jsrecord = "(string \<times> jsval) list"

datatype Error = JsError string

datatype EventNameOrException = EventName string | Exception Error

subsection \<open>The sender capability\<close>

text \<open>
  A call either returns or throws. The sender is the extension's object: the model keeps,
  for each entry point, whether a call with given arguments returns or throws, and records
  every call in the trace of effects. \<open>flush\<close> is an optional member.
\<close>

datatype 'a completion = Normal 'a | Throw

record TelemetrySender =
  sendEventData :: "string \<Rightarrow> jsval \<Rightarrow> unit completion"
  sendErrorData :: "Error \<Rightarrow> jsrecord option \<Rightarrow> unit completion"
  flush :: "unit completion option"

record TelemetryLoggerOptions =
  opt_ignoreUnhandledErrors :: "bool option"
  opt_ignoreBuiltInCommonProperties :: "bool option"
  opt_additionalCommonProperties :: "jsrecord option"

record IExtensionDescription =
  publisher :: string
  ext_name :: string
  ext_version :: string
  ext_identifier :: string

subsection \<open>Loggers and the coordinator\<close>

text \<open>
  \<open>ExtHostTelemetryLogger\<close>. \<open>apiObject\<close> says whether \<open>_apiObject\<close> is defined; the
  frozen handle itself only closes over the logger, so the logger's address stands for it.
\<close>

record Logger =
  sender :: "TelemetrySender option"
  apiObject :: bool
  telemetryEnablements :: Enablements
  ignoreUnhandledExtHostErrors :: bool
  ignoreBuiltinCommonProperties :: bool
  additionalCommonProperties :: "jsrecord option"
  commonProperties :: jsrecord
  extension :: IExtensionDescription
  inLoggingOnlyMode :: bool

text \<open>
  What the outside sees, in the order it happens: calls of a logger's sender (tagged with
  the logger's address), writes to the shared output logger, visibility updates and the
  events fired. A sender is code of the extension: a call of one is recorded, and it is
  taken not to call back into the coordinator or a logger before it returns. The listeners
  of the events run inside the call that fires them and are modelled further down.
\<close>

datatype Effect =
    SendEventData nat string jsval
  | SendErrorData nat Error "jsrecord option"
  | Flush nat
  | Trace string jsval
  | Info string
  | SetVisibility bool
  | FireEnableStates nat
  | FireTelemetryEnabled bool
  | FireTelemetryConfiguration TelemetryConfiguration

datatype UIKind = Desktop | Web | OtherUIKind

text \<open>
  The initialisation data the coordinator reads. \<open>isNewAppInstall\<close> (the clock) and
  \<open>getRemoteName (cleanRemoteAuthority ...)\<close> (not among the sources) are taken by
  their results.
\<close>

record InitData =
  machineId :: string
  sessionId :: string
  hostVersion :: string
  newAppInstall :: bool
  appHost :: string
  uiKind :: UIKind
  remoteName :: jsval
  isExtensionTelemetryLoggingOnly :: bool

text \<open>
  \<open>ExtHostTelemetry\<close>. Loggers are objects shared between the registry and the
  extensions that hold their handles, so they live in a store (\<open>loggerObjects\<close>, a
  logger's address is its index) and the registry \<open>_telemetryLoggers\<close> maps an extension
  identifier to an address, in insertion order as a \<open>Map\<close> does. \<open>logLevelIsTrace\<close> is
  what \<open>loggerService.getLogLevel() === LogLevel.Trace\<close> reads.
\<close>

record ExtHost =
  initData :: InitData
  productConfig :: ProductConfig
  level :: TelemetryLevel
  telemetryIsSupported :: bool
  oldTelemetryEnablement :: "bool option"
  hostInLoggingOnlyMode :: bool
  telemetryLoggers :: "(string \<times> nat) list"
  loggerObjects :: "Logger list"
  logLevelIsTrace :: bool
  effects :: "Effect list"

section \<open>The coordinator: \<open>ExtHostTelemetry\<close>\<close>

definition emit :: "Effect \<Rightarrow> ExtHost \<Rightarrow> ExtHost" where
  "emit e s = s\<lparr>effects := effects s @ [e]\<rparr>"

definition lookup_logger :: "ExtHost \<Rightarrow> nat \<Rightarrow> Logger option" where
  "lookup_logger s a =
     (if a < length (loggerObjects s) then Some (loggerObjects s ! a) else None)"

definition store_logger :: "nat \<Rightarrow> Logger \<Rightarrow> ExtHost \<Rightarrow> ExtHost" where
  "store_logger a lg s = s\<lparr>loggerObjects := (loggerObjects s)[a := lg]\<rparr>"

definition updateLoggerVisibility :: "ExtHost \<Rightarrow> ExtHost" where
  "updateLoggerVisibility s =
     emit (SetVisibility (telemetryIsSupported s \<and> logLevelIsTrace s)) s"

definition constructor :: "InitData \<Rightarrow> bool \<Rightarrow> ExtHost" where
  "constructor init trace_level =
     \<lparr> initData = init,
       productConfig = \<lparr> usage = True, error = True \<rparr>,
       level = NONE,
       telemetryIsSupported = False,
       oldTelemetryEnablement = None,
       hostInLoggingOnlyMode = isExtensionTelemetryLoggingOnly init,
       telemetryLoggers = [],
       loggerObjects = [],
       logLevelIsTrace = trace_level,
       effects =
         [Info ''Below are logs for extension telemetry events sent to the telemetry output channel API once the log level is set to trace.'',
          Info ''===========================================================''] \<rparr>"

definition getTelemetryConfiguration :: "ExtHost \<Rightarrow> bool" where
  "getTelemetryConfiguration s = (level s = USAGE)"

definition getTelemetryDetails :: "ExtHost \<Rightarrow> TelemetryConfiguration" where
  "getTelemetryDetails s =
     \<lparr> isUsageEnabled =
         (if usage (productConfig s) then level_num (level s) \<ge> level_num USAGE else False),
       isErrorsEnabled =
         (if error (productConfig s) then level_num (level s) \<ge> level_num ERROR else False),
       isCrashEnabled = level_num (level s) \<ge> level_num CRASH \<rparr>"

definition initializeTelemetryLevel ::
  "TelemetryLevel \<Rightarrow> bool \<Rightarrow> ProductConfig option \<Rightarrow> ExtHost \<Rightarrow> ExtHost" where
  "initializeTelemetryLevel l supportsTelemetry pc s =
     updateLoggerVisibility
       (s\<lparr> level := l,
           telemetryIsSupported := supportsTelemetry,
           productConfig :=
             (case pc of None \<Rightarrow> \<lparr> usage = True, error = True \<rparr> | Some c \<Rightarrow> c) \<rparr>)"

definition getBuiltInCommonProperties :: "ExtHost \<Rightarrow> IExtensionDescription \<Rightarrow> jsrecord" where
  "getBuiltInCommonProperties s ext =
     [(''common.extname'', JStr (publisher ext @ ''.'' @ ext_name ext)),
      (''common.extversion'', JStr (ext_version ext)),
      (''common.vscodemachineid'', JStr (machineId (initData s))),
      (''common.vscodesessionid'', JStr (sessionId (initData s))),
      (''common.vscodeversion'', JStr (hostVersion (initData s))),
      (''common.isnewappinstall'', JBool (newAppInstall (initData s))),
      (''common.product'', JStr (appHost (initData s))),
      (''common.uikind'',
         (case uiKind (initData s) of
            Web \<Rightarrow> JStr ''web''
          | Desktop \<Rightarrow> JStr ''desktop''
          | OtherUIKind \<Rightarrow> JStr ''unknown'')),
      (''common.remotename'', remoteName (initData s))]"

section \<open>The logger: \<open>ExtHostTelemetryLogger\<close>\<close>

subsection \<open>Enrichment pipeline\<close>

text \<open>
  Modelled from the spec: \<open>cleanData\<close> (\<open>vs/platform/telemetry/common/telemetryUtils\<close>) is
  not among the sources. The spec: it "strips recognized sensitive patterns (e.g.,
  file-system paths, embedded user/machine identifiers, emails) from every property
  value". The patterns are not given, so the cleaning of one value is the parameter
  \<open>redact\<close>; \<open>cleanData\<close> applies it to every property value of a mapping and keeps the
  keys. A value that is no mapping is cleaned as one value.
\<close>

fun cleanData :: "(jsval \<Rightarrow> jsval) \<Rightarrow> jsval \<Rightarrow> jsval" where
  "cleanData redact (JObj ps) = JObj (map (\<lambda>(k, v). (k, redact v)) ps)"
| "cleanData redact v = redact v"

text \<open>
  \<open>mixin\<close> is imported from \<open>vs/base/common/objects\<close>, which is not among the sources. It
  is given here as that module defines it, \<open>mixin(destination, source, overwrite = true)\<close>:
  a destination that is no object gives the source back; otherwise every key of the
  source is written into the destination, except that a key the destination has is left
  alone when \<open>overwrite\<close> is false, and is merged, not replaced, when both values are
  objects. The pipeline below calls it with two arguments, so with \<open>overwrite\<close> true.
  (The spec words the pipeline's mixing as "later does not overwrite earlier"; that is what
  \<open>overwrite\<close> false would do.) \<open>mixin_props\<close> is its loop over the keys of the source.
  The function writes into the destination it is given. In the pipeline that is the fresh
  copy \<open>cleanData\<close> returns, so the model returns the result as a value; only for a payload
  whose \<open>properties\<close> is no object is the destination of the second call the logger's own
  additional properties, a write the model does not carry over to later calls.
\<close>

fun mixin_props :: "jsrecord \<Rightarrow> jsrecord \<Rightarrow> bool \<Rightarrow> jsrecord" where
  "mixin_props destination [] overwrite = destination"
| "mixin_props destination ((key, v) # source) overwrite =
     mixin_props
       (case map_of destination key of
          Some dv \<Rightarrow>
            (if overwrite
             then (case (dv, v) of
                     (JObj d', JObj s') \<Rightarrow>
                       AList.update key (JObj (mixin_props d' s' overwrite)) destination
                   | other \<Rightarrow> AList.update key v destination)
             else destination)
        | None \<Rightarrow> destination @ [(key, v)])
       source overwrite"

definition mixin :: "jsval \<Rightarrow> jsval \<Rightarrow> bool \<Rightarrow> jsval" where
  "mixin destination source overwrite =
     (case destination of
        JObj d \<Rightarrow>
          (case source of
             JObj s \<Rightarrow> JObj (mixin_props d s overwrite)
           | other \<Rightarrow> destination)
      | other \<Rightarrow> source)"

text \<open>\<open>'properties' in data ? (data.properties ?? {}) : data\<close>\<close>

definition properties_of :: "jsrecord \<Rightarrow> jsval" where
  "properties_of data =
     (case map_of data ''properties'' of
        None \<Rightarrow> JObj data
      | Some v \<Rightarrow> (if v = JNull \<or> v = JUndefined then JObj [] else v))"

definition mixInCommonPropsAndCleanData ::
  "(jsval \<Rightarrow> jsval) \<Rightarrow> Logger \<Rightarrow> jsrecord \<Rightarrow> jsval" where
  "mixInCommonPropsAndCleanData redact lg data =
     (let updatedData = properties_of data;
          updatedData = cleanData redact updatedData;
          updatedData =
            (case additionalCommonProperties lg of
               Some additional \<Rightarrow> mixin updatedData (JObj additional) True
             | None \<Rightarrow> updatedData);
          updatedData =
            (if \<not> ignoreBuiltinCommonProperties lg
             then mixin updatedData (JObj (commonProperties lg)) True else updatedData)
      in if map_of data ''properties'' \<noteq> None
         then JObj (AList.update ''properties'' updatedData data)
         else updatedData)"

subsection \<open>Logging\<close>

definition isDisposed :: "Logger \<Rightarrow> bool" where
  "isDisposed lg = (sender lg = None)"

text \<open>
  The methods of a logger are called through a reference \<open>a\<close> to it. A reference the
  store does not hold is never produced (\<open>instantiateLogger\<close> is the only source of
  references); a call through one is modelled as doing nothing.
\<close>

definition qualified_name :: "IExtensionDescription \<Rightarrow> string \<Rightarrow> string" where
  "qualified_name ext eventName =
     (if publisher ext = ''vscode'' then ext_name ext @ ''/'' @ eventName
      else ext_identifier ext @ ''/'' @ eventName)"

definition logEvent ::
  "(jsval \<Rightarrow> jsval) \<Rightarrow> nat \<Rightarrow> string \<Rightarrow> jsrecord option \<Rightarrow> ExtHost
     \<Rightarrow> unit completion \<times> ExtHost" where
  "logEvent redact a eventName data s =
     (case lookup_logger s a of
        None \<Rightarrow> (Normal (), s)
      | Some lg \<Rightarrow>
          (case sender lg of
             None \<Rightarrow> (Normal (), s)
           | Some snd_cap \<Rightarrow>
               (let eventName' = qualified_name (extension lg) eventName;
                    data' = mixInCommonPropsAndCleanData redact lg
                              (case data of None \<Rightarrow> [] | Some d \<Rightarrow> d)
                in if \<not> inLoggingOnlyMode lg
                   then (let s1 = emit (SendEventData a eventName' data') s
                         in case sendEventData snd_cap eventName' data' of
                              Throw \<Rightarrow> (Throw, s1)
                            | Normal u \<Rightarrow> (Normal (), emit (Trace eventName' data') s1))
                   else (Normal (), emit (Trace eventName' data') s))))"

definition logUsage ::
  "(jsval \<Rightarrow> jsval) \<Rightarrow> nat \<Rightarrow> string \<Rightarrow> jsrecord option \<Rightarrow> ExtHost
     \<Rightarrow> unit completion \<times> ExtHost" where
  "logUsage redact a eventName data s =
     (case lookup_logger s a of
        None \<Rightarrow> (Normal (), s)
      | Some lg \<Rightarrow>
          (if \<not> isUsageEnabled (telemetryEnablements lg) then (Normal (), s)
           else logEvent redact a eventName data s))"

definition logError ::
  "(jsval \<Rightarrow> jsval) \<Rightarrow> nat \<Rightarrow> EventNameOrException \<Rightarrow> jsrecord option \<Rightarrow> ExtHost
     \<Rightarrow> unit completion \<times> ExtHost" where
  "logError redact a eventNameOrException data s =
     (case lookup_logger s a of
        None \<Rightarrow> (Normal (), s)
      | Some lg \<Rightarrow>
          (if \<not> isErrorsEnabled (telemetryEnablements lg) \<or> sender lg = None
           then (Normal (), s)
           else (case eventNameOrException of
                   EventName eventName \<Rightarrow> logEvent redact a eventName data s
                 | Exception exception \<Rightarrow>
                     (case sender lg of
                        None \<Rightarrow> (Normal (), s)
                      | Some snd_cap \<Rightarrow>
                          (sendErrorData snd_cap exception data,
                           emit (SendErrorData a exception data) s)))))"

definition updateTelemetryEnablements :: "nat \<Rightarrow> bool \<Rightarrow> bool \<Rightarrow> ExtHost \<Rightarrow> ExtHost" where
  "updateTelemetryEnablements a usageEnabled errorsEnabled s =
     (case lookup_logger s a of
        None \<Rightarrow> s
      | Some lg \<Rightarrow>
          (if apiObject lg
           then emit (FireEnableStates a)
                  (store_logger a
                     (lg\<lparr>telemetryEnablements :=
                           \<lparr> isUsageEnabled = usageEnabled,
                             isErrorsEnabled = errorsEnabled \<rparr>\<rparr>) s)
           else s))"

text \<open>
  \<open>dispose\<close>: \<open>tempSender.flush!()\<close> is evaluated in the call itself, after the sender
  reference is cleared and before \<open>_apiObject\<close> is; if it throws, the call ends there.
\<close>

definition dispose :: "nat \<Rightarrow> ExtHost \<Rightarrow> unit completion \<times> ExtHost" where
  "dispose a s =
     (case lookup_logger s a of
        None \<Rightarrow> (Normal (), s)
      | Some lg \<Rightarrow>
          (case (case sender lg of None \<Rightarrow> None | Some snd_cap \<Rightarrow> flush snd_cap) of
             Some outcome \<Rightarrow>
               (let s1 = emit (Flush a) (store_logger a (lg\<lparr>sender := None\<rparr>) s)
                in case outcome of
                     Throw \<Rightarrow> (Throw, s1)
                   | Normal u \<Rightarrow>
                       (Normal (),
                        store_logger a (lg\<lparr>sender := None, apiObject := False\<rparr>) s1))
           | None \<Rightarrow> (Normal (), store_logger a (lg\<lparr>sender := None\<rparr>) s)))"

text \<open>The constructor of \<open>ExtHostTelemetryLogger\<close>.\<close>

definition new_logger ::
  "TelemetrySender \<Rightarrow> TelemetryLoggerOptions option \<Rightarrow> IExtensionDescription \<Rightarrow> bool
     \<Rightarrow> jsrecord \<Rightarrow> Enablements \<Rightarrow> Logger" where
  "new_logger snd_cap options ext loggingOnly common enablements =
     \<lparr> sender = Some snd_cap,
       apiObject = False,
       telemetryEnablements =
         \<lparr> isUsageEnabled = isUsageEnabled enablements,
           isErrorsEnabled = isErrorsEnabled enablements \<rparr>,
       ignoreUnhandledExtHostErrors =
         (case Option.bind options opt_ignoreUnhandledErrors of
            None \<Rightarrow> False | Some b \<Rightarrow> b),
       ignoreBuiltinCommonProperties =
         (case Option.bind options opt_ignoreBuiltInCommonProperties of
            None \<Rightarrow> False | Some b \<Rightarrow> b),
       additionalCommonProperties = Option.bind options opt_additionalCommonProperties,
       commonProperties = common,
       extension = ext,
       inLoggingOnlyMode = loggingOnly \<rparr>"

text \<open>The getter \<open>apiTelemetryLogger\<close> creates the handle when there is none.\<close>

definition apiTelemetryLogger :: "nat \<Rightarrow> ExtHost \<Rightarrow> ExtHost" where
  "apiTelemetryLogger a s =
     (case lookup_logger s a of
        None \<Rightarrow> s
      | Some lg \<Rightarrow> (if \<not> apiObject lg then store_logger a (lg\<lparr>apiObject := True\<rparr>) s else s))"

section \<open>Registration, level changes, unhandled errors\<close>

text \<open>
  \<open>instantiateLogger\<close> returns the handle of the new logger, here its address, and the
  new state. \<open>Map.set\<close> keeps the position of a key the map has and appends a new one.
\<close>

definition instantiateLogger ::
  "IExtensionDescription \<Rightarrow> TelemetrySender \<Rightarrow> TelemetryLoggerOptions option \<Rightarrow> ExtHost
     \<Rightarrow> nat \<times> ExtHost" where
  "instantiateLogger ext snd_cap options s =
     (let telemetryDetails = getTelemetryDetails s;
          logger = new_logger snd_cap options ext (hostInLoggingOnlyMode s)
                     (getBuiltInCommonProperties s ext)
                     \<lparr> isUsageEnabled = isUsageEnabled telemetryDetails,
                       isErrorsEnabled = isErrorsEnabled telemetryDetails \<rparr>;
          a = length (loggerObjects s);
          s1 = s\<lparr> loggerObjects := loggerObjects s @ [logger],
                 telemetryLoggers := AList.update (ext_identifier ext) a (telemetryLoggers s) \<rparr>
      in (a, apiTelemetryLogger a s1))"

text \<open>
  The first \<open>forEach\<close> of the level-change handler deletes the key of every disposed
  logger from the map it walks; the second pushes the enablement to every logger left.
  \<open>update_all\<close> and \<open>onDidChangeTelemetryLevel\<close> are the push loop and the handler while no
  listener is subscribed to any event they fire: the event is fired and nobody hears it. The loop and the handler with listeners follow further down
  (\<open>update_all_listening\<close>, \<open>onDidChangeTelemetryLevel_listening\<close>).
\<close>

definition remove_disposed :: "ExtHost \<Rightarrow> ExtHost" where
  "remove_disposed s =
     s\<lparr>telemetryLoggers :=
         fold (\<lambda>(key, a) reg.
                 (case lookup_logger s a of
                    Some lg \<Rightarrow> (if isDisposed lg then AList.delete key reg else reg)
                  | None \<Rightarrow> reg))
              (telemetryLoggers s) (telemetryLoggers s)\<rparr>"

definition update_all :: "TelemetryConfiguration \<Rightarrow> ExtHost \<Rightarrow> ExtHost" where
  "update_all telemetryDetails s =
     fold (\<lambda>(key, a). updateTelemetryEnablements a (isUsageEnabled telemetryDetails)
                         (isErrorsEnabled telemetryDetails))
          (telemetryLoggers s) s"

definition onDidChangeTelemetryLevel :: "TelemetryLevel \<Rightarrow> ExtHost \<Rightarrow> ExtHost" where
  "onDidChangeTelemetryLevel l s =
     (let s1 = s\<lparr>oldTelemetryEnablement := Some (getTelemetryConfiguration s)\<rparr>;
          s2 = s1\<lparr>level := l\<rparr>;
          telemetryDetails = getTelemetryDetails s2;
          s3 = remove_disposed s2;
          s4 = update_all telemetryDetails s3;
          s5 = (if oldTelemetryEnablement s4 \<noteq> Some (getTelemetryConfiguration s4)
                then emit (FireTelemetryEnabled (getTelemetryConfiguration s4)) s4
                else s4);
          s6 = emit (FireTelemetryConfiguration (getTelemetryDetails s5)) s5
      in updateLoggerVisibility s6)"

definition onExtensionError ::
  "(jsval \<Rightarrow> jsval) \<Rightarrow> string \<Rightarrow> Error \<Rightarrow> ExtHost \<Rightarrow> bool completion \<times> ExtHost" where
  "onExtensionError redact ext err s =
     (case map_of (telemetryLoggers s) ext of
        None \<Rightarrow> (Normal False, s)
      | Some a \<Rightarrow>
          (case lookup_logger s a of
             None \<Rightarrow> (Normal False, s)
           | Some lg \<Rightarrow>
               (if isDisposed lg
                then (Normal False,
                      s\<lparr>telemetryLoggers := AList.delete ext (telemetryLoggers s)\<rparr>)
                else if ignoreUnhandledExtHostErrors lg then (Normal False, s)
                else (case logError redact a (Exception err) None s of
                        (Throw, s') \<Rightarrow> (Throw, s')
                      | (Normal u, s') \<Rightarrow> (Normal True, s')))))"

section \<open>Listeners of the events\<close>

text \<open>
  \<open>updateTelemetryEnablements\<close> fires the logger's \<open>onDidChangeEnableStates\<close> event, and the
  listeners an extension subscribed run inside that call, so inside the push loop of the
  level-change handler, after its prune pass. The coordinator's own events,
  \<open>onDidChangeTelemetryEnabled\<close> and \<open>onDidChangeTelemetryConfiguration\<close>, are fired by the
  handler after the push loop, and their listeners run before it returns. A listener is
  code of the extension. What
  it can do to the state modelled here is call the handles it holds: \<open>logUsage\<close>,
  \<open>logError\<close> and \<open>dispose\<close> of a logger. So a listener is given by the calls it makes, which it
  may choose from the state it finds when it is invoked. A listener that registers a new
  logger is not modelled. The emitter (\<open>vs/base/common/event\<close>, not among the sources) is
  taken to deliver the event to every listener in the order of subscription and to keep a
  listener's exception from the one who fires: a call that throws ends that listener only.
\<close>

datatype HandleCall =
    HLogUsage nat string "jsrecord option"
  | HLogError nat EventNameOrException "jsrecord option"
  | HDispose nat

fun call_handle ::
  "(jsval \<Rightarrow> jsval) \<Rightarrow> HandleCall \<Rightarrow> ExtHost \<Rightarrow> unit completion \<times> ExtHost" where
  "call_handle redact (HLogUsage a eventName data) s = logUsage redact a eventName data s"
| "call_handle redact (HLogError a e data) s = logError redact a e data s"
| "call_handle redact (HDispose a) s = dispose a s"

fun run_listener :: "(jsval \<Rightarrow> jsval) \<Rightarrow> HandleCall list \<Rightarrow> ExtHost \<Rightarrow> ExtHost" where
  "run_listener redact [] s = s"
| "run_listener redact (c # cs) s =
     (case call_handle redact c s of
        (Throw, s') \<Rightarrow> s'
      | (Normal u, s') \<Rightarrow> run_listener redact cs s')"

text \<open>
  Firing an event records it and runs the listeners subscribed, one after the other.
  \<open>Listeners\<close> are the listeners subscribed to the event of the logger at each address.
\<close>

type_synonym Listener = "ExtHost \<Rightarrow> HandleCall list"

type_synonym Listeners = "nat \<Rightarrow> Listener list"

definition fire :: "(jsval \<Rightarrow> jsval) \<Rightarrow> Listener list \<Rightarrow> Effect \<Rightarrow> ExtHost \<Rightarrow> ExtHost" where
  "fire redact subscribed e s =
     fold (\<lambda>listener st. run_listener redact (listener st) st) subscribed (emit e s)"

definition updateTelemetryEnablements_listening ::
  "(jsval \<Rightarrow> jsval) \<Rightarrow> Listeners \<Rightarrow> nat \<Rightarrow> bool \<Rightarrow> bool \<Rightarrow> ExtHost \<Rightarrow> ExtHost" where
  "updateTelemetryEnablements_listening redact listeners a usageEnabled errorsEnabled s =
     (case lookup_logger s a of
        None \<Rightarrow> s
      | Some lg \<Rightarrow>
          (if apiObject lg
           then fire redact (listeners a) (FireEnableStates a)
                  (store_logger a
                     (lg\<lparr>telemetryEnablements :=
                           \<lparr> isUsageEnabled = usageEnabled,
                             isErrorsEnabled = errorsEnabled \<rparr>\<rparr>) s)
           else s))"

definition update_all_listening ::
  "(jsval \<Rightarrow> jsval) \<Rightarrow> Listeners \<Rightarrow> TelemetryConfiguration \<Rightarrow> ExtHost \<Rightarrow> ExtHost" where
  "update_all_listening redact listeners telemetryDetails s =
     fold (\<lambda>(key, a). updateTelemetryEnablements_listening redact listeners a
                         (isUsageEnabled telemetryDetails) (isErrorsEnabled telemetryDetails))
          (telemetryLoggers s) s"

text \<open>
  The level-change handler with the listeners run: the ones of the loggers' enablement
  events, inside the push loop, then the ones of the coordinator's
  \<open>onDidChangeTelemetryEnabled\<close> and \<open>onDidChangeTelemetryConfiguration\<close>, before the
  handler returns. \<open>onDidChangeTelemetryLevel\<close> above is this handler while no listener
  is subscribed.
\<close>

definition onDidChangeTelemetryLevel_listening ::
  "(jsval \<Rightarrow> jsval) \<Rightarrow> Listeners \<Rightarrow> Listener list \<Rightarrow> Listener list \<Rightarrow>
   TelemetryLevel \<Rightarrow> ExtHost \<Rightarrow> ExtHost" where
  "onDidChangeTelemetryLevel_listening redact listeners enabledListeners configurationListeners l s =
     (let s1 = s\<lparr>oldTelemetryEnablement := Some (getTelemetryConfiguration s)\<rparr>;
          s2 = s1\<lparr>level := l\<rparr>;
          telemetryDetails = getTelemetryDetails s2;
          s3 = remove_disposed s2;
          s4 = update_all_listening redact listeners telemetryDetails s3;
          s5 = (if oldTelemetryEnablement s4 \<noteq> Some (getTelemetryConfiguration s4)
                then fire redact enabledListeners
                       (FireTelemetryEnabled (getTelemetryConfiguration s4)) s4
                else s4);
          s6 = fire redact configurationListeners
                 (FireTelemetryConfiguration (getTelemetryDetails s5)) s5
      in updateLoggerVisibility s6)"

section \<open>Histories\<close>

text \<open>
  Everything the host and the extensions can do to a coordinator and its loggers, as one
  call each; \<open>ChangeLogLevel\<close> is the log service's level-change event, to which the
  constructor subscribes \<open>updateLoggerVisibility\<close>; \<open>OnDidChangeTelemetryLevelListening\<close> is
  a level change while the given listeners are subscribed. A history is a list of calls made
  one after the other on the state the constructor built; a call that throws leaves the
  state it reached.
\<close>

datatype Call =
    InitializeTelemetryLevel TelemetryLevel bool "ProductConfig option"
  | InstantiateLogger IExtensionDescription TelemetrySender "TelemetryLoggerOptions option"
  | OnDidChangeTelemetryLevel TelemetryLevel
  | OnDidChangeTelemetryLevelListening Listeners "Listener list" "Listener list" TelemetryLevel
  | OnExtensionError string Error
  | LogUsage nat string "jsrecord option"
  | LogError nat EventNameOrException "jsrecord option"
  | Dispose nat
  | ChangeLogLevel bool

fun exec :: "(jsval \<Rightarrow> jsval) \<Rightarrow> Call \<Rightarrow> ExtHost \<Rightarrow> ExtHost" where
  "exec redact (InitializeTelemetryLevel l supported pc) s = initializeTelemetryLevel l supported pc s"
| "exec redact (InstantiateLogger ext snd_cap options) s = snd (instantiateLogger ext snd_cap options s)"
| "exec redact (OnDidChangeTelemetryLevel l) s = onDidChangeTelemetryLevel l s"
| "exec redact (OnDidChangeTelemetryLevelListening listeners enabledListeners configurationListeners l) s =
     onDidChangeTelemetryLevel_listening redact listeners enabledListeners configurationListeners l s"
| "exec redact (OnExtensionError ext err) s = snd (onExtensionError redact ext err s)"
| "exec redact (LogUsage a eventName data) s = snd (logUsage redact a eventName data s)"
| "exec redact (LogError a e data) s = snd (logError redact a e data s)"
| "exec redact (Dispose a) s = snd (dispose a s)"
| "exec redact (ChangeLogLevel b) s = updateLoggerVisibility (s\<lparr>logLevelIsTrace := b\<rparr>)"

definition run :: "(jsval \<Rightarrow> jsval) \<Rightarrow> Call list \<Rightarrow> ExtHost \<Rightarrow> ExtHost" where
  "run redact calls s = fold (exec redact) calls s"

section \<open>Invariants\<close>

text \<open>A logger is disposed when its sender reference is gone.\<close>

definition disposed_at :: "nat \<Rightarrow> ExtHost \<Rightarrow> bool" where
  "disposed_at a s = (case lookup_logger s a of Some lg \<Rightarrow> sender lg = None | None \<Rightarrow> False)"

text \<open>
  Every reference in the registry is in the store, and every live logger has its handle:
  \<open>instantiateLogger\<close> reads \<open>apiTelemetryLogger\<close> when it creates a logger, and only
  \<open>dispose\<close> clears the handle, together with the sender.
\<close>

definition wf_host :: "ExtHost \<Rightarrow> bool" where
  "wf_host s =
     ((\<forall>(key, a) \<in> set (telemetryLoggers s). a < length (loggerObjects s))
      \<and> (\<forall>a lg. lookup_logger s a = Some lg \<and> sender lg \<noteq> None \<longrightarrow> apiObject lg))"

text \<open>
  The fields of the coordinator that no call on a logger's handle writes, and what the
  push leaves behind in a logger: a live logger caches the pushed enablement.
\<close>

definition policy ::
  "ExtHost \<Rightarrow> (string \<times> nat) list \<times> nat \<times> TelemetryLevel \<times> ProductConfig \<times> bool option \<times> bool \<times> bool" where
  "policy s =
     (telemetryLoggers s, length (loggerObjects s), level s, productConfig s,
      oldTelemetryEnablement s, telemetryIsSupported s, logLevelIsTrace s)"

definition pushed_ok :: "Enablements \<Rightarrow> nat \<Rightarrow> ExtHost \<Rightarrow> bool" where
  "pushed_ok d a s =
     (case lookup_logger s a of
        Some lg \<Rightarrow> sender lg \<noteq> None \<longrightarrow> telemetryEnablements lg = d
      | None \<Rightarrow> False)"

text \<open>
  What calls on handles and the firing of events can reach from a state, when every call
  made satisfies \<open>ok\<close>.
\<close>

inductive handle_steps ::
  "(jsval \<Rightarrow> jsval) \<Rightarrow> (HandleCall \<Rightarrow> bool) \<Rightarrow> ExtHost \<Rightarrow> ExtHost \<Rightarrow> bool"
  for redact :: "jsval \<Rightarrow> jsval" and ok :: "HandleCall \<Rightarrow> bool" where
  handle_steps_refl: "handle_steps redact ok s s"
| handle_steps_call:
    "handle_steps redact ok s s1 \<Longrightarrow> ok c \<Longrightarrow>
     handle_steps redact ok s (snd (call_handle redact c s1))"
| handle_steps_emit:
    "handle_steps redact ok s s1 \<Longrightarrow> handle_steps redact ok s (emit e s1)"

fun is_dispose :: "HandleCall \<Rightarrow> bool" where
  "is_dispose (HDispose a) = True"
| "is_dispose c = False"

section \<open>Example configurations\<close>

definition example_init :: InitData where
  "example_init =
     \<lparr> machineId = ''machine'', sessionId = ''session'', hostVersion = ''1.80.0'',
       newAppInstall = False, appHost = ''desktop'', uiKind = Desktop,
       remoteName = JStr ''none'', isExtensionTelemetryLoggingOnly = False \<rparr>"

definition example_extension :: IExtensionDescription where
  "example_extension =
     \<lparr> publisher = ''acme'', ext_name = ''tool'', ext_version = ''1.0.0'',
       ext_identifier = ''acme.tool'' \<rparr>"

text \<open>A sender whose entry points return, and one whose entry points all throw.\<close>

definition example_sender :: TelemetrySender where
  "example_sender =
     \<lparr> sendEventData = (\<lambda>eventName data. Normal ()),
       sendErrorData = (\<lambda>exception data. Normal ()),
       flush = Some (Normal ()) \<rparr>"

definition throwing_sender :: TelemetrySender where
  "throwing_sender =
     \<lparr> sendEventData = (\<lambda>eventName data. Throw),
       sendErrorData = (\<lambda>exception data. Throw),
       flush = Some Throw \<rparr>"

text \<open>A product configuration that switches usage telemetry off.\<close>

definition no_usage_product :: ProductConfig where
  "no_usage_product = \<lparr> usage = False, error = True \<rparr>"

text \<open>
  A logger with the additional property \<open>foo = 1\<close> and the builtin property \<open>foo = 2\<close>,
  one that has the additional property \<open>bar = 3\<close> too, an envelope-shaped payload, and a
  cleaning function that replaces every string.
\<close>

definition foo_logger :: Logger where
  "foo_logger =
     new_logger example_sender
       (Some \<lparr> opt_ignoreUnhandledErrors = None,
               opt_ignoreBuiltInCommonProperties = None,
               opt_additionalCommonProperties = Some [(''foo'', JNum 1)] \<rparr>)
       example_extension False [(''foo'', JNum 2)]
       \<lparr> isUsageEnabled = True, isErrorsEnabled = True \<rparr>"

definition foo_bar_logger :: Logger where
  "foo_bar_logger =
     new_logger example_sender
       (Some \<lparr> opt_ignoreUnhandledErrors = None,
               opt_ignoreBuiltInCommonProperties = None,
               opt_additionalCommonProperties = Some [(''foo'', JNum 1), (''bar'', JNum 3)] \<rparr>)
       example_extension False [(''foo'', JNum 2)]
       \<lparr> isUsageEnabled = True, isErrorsEnabled = True \<rparr>"

definition example_envelope :: jsrecord where
  "example_envelope =
     [(''properties'', JObj [(''path'', JStr ''/Users/alice/secret.txt'')]),
      (''measurements'', JObj [(''count'', JNum 3)])]"

definition example_redact :: "jsval \<Rightarrow> jsval" where
  "example_redact v = (case v of JStr str \<Rightarrow> JStr ''<REDACTED>'' | other \<Rightarrow> other)"

text \<open>
  A coordinator after \<open>$initializeTelemetryLevel (l, true)\<close> and one \<open>instantiateLogger\<close>
  for the example extension, and the logger that call creates.
\<close>

definition host_with ::
  "InitData \<Rightarrow> TelemetryLevel \<Rightarrow> TelemetrySender \<Rightarrow> TelemetryLoggerOptions option \<Rightarrow> ExtHost" where
  "host_with init l snd_cap options =
     run (\<lambda>v. v)
       [InitializeTelemetryLevel l True None, InstantiateLogger example_extension snd_cap options]
       (constructor init False)"

definition example_logger ::
  "InitData \<Rightarrow> TelemetryLevel \<Rightarrow> TelemetrySender \<Rightarrow> TelemetryLoggerOptions option \<Rightarrow> Logger" where
  "example_logger init l snd_cap options =
     (new_logger snd_cap options example_extension (isExtensionTelemetryLoggingOnly init)
        (getBuiltInCommonProperties (constructor init False) example_extension)
        \<lparr> isUsageEnabled = (l = USAGE), isErrorsEnabled = (l = USAGE \<or> l = ERROR) \<rparr>)
     \<lparr>apiObject := True\<rparr>"

definition logging_only_init :: InitData where
  "logging_only_init = example_init\<lparr>isExtensionTelemetryLoggingOnly := True\<rparr>"

definition opted_out :: TelemetryLoggerOptions where
  "opted_out =
     \<lparr> opt_ignoreUnhandledErrors = Some True,
       opt_ignoreBuiltInCommonProperties = None,
       opt_additionalCommonProperties = None \<rparr>"

text \<open>The same coordinator after the logger was disposed, and one whose product
  configuration switches usage off.\<close>

definition disposed_host :: ExtHost where
  "disposed_host = snd (dispose 0 (host_with example_init USAGE example_sender None))"

text \<open>
  A coordinator at level USAGE where the example extension registered twice, so that its
  first logger is displaced from the registry; and listeners of which the one of logger 0
  disposes that logger.
\<close>

definition displaced_host :: ExtHost where
  "displaced_host =
     run (\<lambda>v. v)
       [InitializeTelemetryLevel USAGE True None,
        InstantiateLogger example_extension example_sender None,
        InstantiateLogger example_extension example_sender None]
       (constructor example_init False)"

definition no_listeners :: Listeners where
  "no_listeners a = []"

definition disposing_listeners :: Listeners where
  "disposing_listeners a = (if a = 0 then [\<lambda>st. [HDispose 0]] else [])"

definition no_usage_host :: ExtHost where
  "no_usage_host =
     initializeTelemetryLevel NONE True (Some no_usage_product) (constructor example_init False)"

section \<open>Basic facts\<close>

lemma lookup_logger_emit [simp]: "lookup_logger (emit e s) a = lookup_logger s a"
  by (simp add: lookup_logger_def emit_def)

lemma lookup_logger_store:
  "lookup_logger (store_logger a lg s) b =
     (if b = a \<and> a < length (loggerObjects s) then Some lg else lookup_logger s b)"
  by (simp add: lookup_logger_def store_logger_def)

lemma emit_fields [simp]:
  "telemetryLoggers (emit e s) = telemetryLoggers s"
  "loggerObjects (emit e s) = loggerObjects s"
  "level (emit e s) = level s"
  "productConfig (emit e s) = productConfig s"
  "oldTelemetryEnablement (emit e s) = oldTelemetryEnablement s"
  "telemetryIsSupported (emit e s) = telemetryIsSupported s"
  "logLevelIsTrace (emit e s) = logLevelIsTrace s"
  "effects (emit e s) = effects s @ [e]"
  by (simp_all add: emit_def)

lemma store_fields [simp]:
  "telemetryLoggers (store_logger a lg s) = telemetryLoggers s"
  "loggerObjects (store_logger a lg s) = (loggerObjects s)[a := lg]"
  "level (store_logger a lg s) = level s"
  "productConfig (store_logger a lg s) = productConfig s"
  "oldTelemetryEnablement (store_logger a lg s) = oldTelemetryEnablement s"
  "telemetryIsSupported (store_logger a lg s) = telemetryIsSupported s"
  "logLevelIsTrace (store_logger a lg s) = logLevelIsTrace s"
  "effects (store_logger a lg s) = effects s"
  by (simp_all add: store_logger_def)

lemma map_of_cleaned:
  "map_of (map (\<lambda>(k, v). (k, redact v)) ps) k = map_option redact (map_of ps k)"
  by (induction ps) auto

lemma mixin_props_other:
  "k \<notin> fst ` set source \<Longrightarrow>
   map_of (mixin_props destination source overwrite) k = map_of destination k"
proof (induction source arbitrary: destination)
  case Nil
  then show ?case by simp
next
  case (Cons p source)
  obtain key v where p: "p = (key, v)" by (cases p)
  from Cons.prems have ne: "key \<noteq> k" and rest: "k \<notin> fst ` set source"
    by (auto simp add: p)
  have "map_of (mixin_props destination (p # source) overwrite) k =
        map_of (case map_of destination key of
          Some dv \<Rightarrow>
            (if overwrite
             then (case (dv, v) of
                     (JObj d', JObj s') \<Rightarrow>
                       AList.update key (JObj (mixin_props d' s' overwrite)) destination
                   | other \<Rightarrow> AList.update key v destination)
             else destination)
        | None \<Rightarrow> destination @ [(key, v)]) k"
    by (simp only: p mixin_props.simps Cons.IH [OF rest])
  also have "\<dots> = map_of destination k"
    using ne by (auto simp add: update_conv' map_add_def split: option.splits jsval.splits)
  finally show ?case .
qed

lemma mixin_props_overwrites:
  assumes "distinct (map fst source)" and "map_of source k = Some w" and "\<forall>ps. w \<noteq> JObj ps"
  shows "map_of (mixin_props destination source True) k = Some w"
  using assms
proof (induction source arbitrary: destination)
  case Nil
  then show ?case by simp
next
  case (Cons p source)
  obtain key v where p: "p = (key, v)" by (cases p)
  let ?d = "(case map_of destination key of
          Some dv \<Rightarrow>
            (if True
             then (case (dv, v) of
                     (JObj d', JObj s') \<Rightarrow>
                       AList.update key (JObj (mixin_props d' s' True)) destination
                   | other \<Rightarrow> AList.update key v destination)
             else destination)
        | None \<Rightarrow> destination @ [(key, v)])"
  have step: "mixin_props destination (p # source) True = mixin_props ?d source True"
    by (simp only: p mixin_props.simps)
  show ?case
  proof (cases "key = k")
    case True
    with Cons.prems have v: "v = w" and rest: "k \<notin> fst ` set source"
      by (auto simp add: p)
    have "map_of ?d k = Some w"
      using True v Cons.prems(3)
      by (auto simp add: update_conv' map_add_def split: option.splits jsval.splits)
    then show ?thesis
      by (simp only: step mixin_props_other [OF rest])
  next
    case False
    with Cons.prems have "distinct (map fst source)" "map_of source k = Some w"
      by (auto simp add: p)
    from Cons.IH [OF this Cons.prems(3)] show ?thesis
      by (simp only: step)
  qed
qed

lemma mixin_object:
  "mixin destination (JObj source) overwrite =
     JObj (case destination of JObj d \<Rightarrow> mixin_props d source overwrite | other \<Rightarrow> source)"
  by (simp add: mixin_def split: jsval.splits)

section \<open>Frames of the operations\<close>

lemma logEvent_frame [simp]:
  "loggerObjects (snd (logEvent redact a ev d s)) = loggerObjects s"
  "telemetryLoggers (snd (logEvent redact a ev d s)) = telemetryLoggers s"
  by (simp_all add: logEvent_def Let_def split: option.splits completion.splits)

lemma logUsage_frame [simp]:
  "loggerObjects (snd (logUsage redact a ev d s)) = loggerObjects s"
  "telemetryLoggers (snd (logUsage redact a ev d s)) = telemetryLoggers s"
  by (simp_all add: logUsage_def split: option.splits)

lemma logError_frame [simp]:
  "loggerObjects (snd (logError redact a e d s)) = loggerObjects s"
  "telemetryLoggers (snd (logError redact a e d s)) = telemetryLoggers s"
  by (simp_all add: logError_def split: option.splits EventNameOrException.splits)

lemma logError_objects_pair:
  "logError redact a e d s = (c, s') \<Longrightarrow> loggerObjects s' = loggerObjects s"
  using logError_frame(1) [of redact a e d s] by simp

lemma onExtensionError_objects [simp]:
  "loggerObjects (snd (onExtensionError redact ext err s)) = loggerObjects s"
  by (auto simp add: onExtensionError_def dest: logError_objects_pair
      split: option.splits prod.splits completion.splits)

lemma lookup_logger_cong: "loggerObjects s' = loggerObjects s \<Longrightarrow> lookup_logger s' a = lookup_logger s a"
  by (simp add: lookup_logger_def)

lemma lookup_updateTelemetryEnablements:
  "lookup_logger (updateTelemetryEnablements a u e s) b =
     (case lookup_logger s b of
        None \<Rightarrow> None
      | Some lg \<Rightarrow>
          Some (if b = a \<and> apiObject lg
                then lg\<lparr>telemetryEnablements := \<lparr>isUsageEnabled = u, isErrorsEnabled = e\<rparr>\<rparr>
                else lg))"
  by (auto simp add: updateTelemetryEnablements_def lookup_logger_store split: option.splits)
     (auto simp add: lookup_logger_def)

lemma updateTelemetryEnablements_fields [simp]:
  "telemetryLoggers (updateTelemetryEnablements a u e s) = telemetryLoggers s"
  "level (updateTelemetryEnablements a u e s) = level s"
  "productConfig (updateTelemetryEnablements a u e s) = productConfig s"
  "oldTelemetryEnablement (updateTelemetryEnablements a u e s) = oldTelemetryEnablement s"
  "telemetryIsSupported (updateTelemetryEnablements a u e s) = telemetryIsSupported s"
  "logLevelIsTrace (updateTelemetryEnablements a u e s) = logLevelIsTrace s"
  "length (loggerObjects (updateTelemetryEnablements a u e s)) = length (loggerObjects s)"
  by (simp_all add: updateTelemetryEnablements_def split: option.splits)

lemma fold_update_fields [simp]:
  "telemetryLoggers (fold (\<lambda>(key, a). updateTelemetryEnablements a u e) reg s) = telemetryLoggers s"
  "level (fold (\<lambda>(key, a). updateTelemetryEnablements a u e) reg s) = level s"
  "productConfig (fold (\<lambda>(key, a). updateTelemetryEnablements a u e) reg s) = productConfig s"
  "oldTelemetryEnablement (fold (\<lambda>(key, a). updateTelemetryEnablements a u e) reg s) = oldTelemetryEnablement s"
  "telemetryIsSupported (fold (\<lambda>(key, a). updateTelemetryEnablements a u e) reg s) = telemetryIsSupported s"
  "logLevelIsTrace (fold (\<lambda>(key, a). updateTelemetryEnablements a u e) reg s) = logLevelIsTrace s"
  "length (loggerObjects (fold (\<lambda>(key, a). updateTelemetryEnablements a u e) reg s)) = length (loggerObjects s)"
  by (induction reg arbitrary: s; simp split: prod.splits)+

lemma lookup_fold_update:
  "lookup_logger (fold (\<lambda>(key, a). updateTelemetryEnablements a u e) reg s) b =
     (case lookup_logger s b of
        None \<Rightarrow> None
      | Some lg \<Rightarrow>
          Some (if b \<in> snd ` set reg \<and> apiObject lg
                then lg\<lparr>telemetryEnablements := \<lparr>isUsageEnabled = u, isErrorsEnabled = e\<rparr>\<rparr>
                else lg))"
proof (induction reg arbitrary: s)
  case Nil
  then show ?case by (simp split: option.splits)
next
  case (Cons p reg)
  obtain key a where p: "p = (key, a)" by (cases p)
  show ?case
    by (cases "lookup_logger s b")
       (auto simp add: p Cons.IH lookup_updateTelemetryEnablements)
qed

lemma effects_fold_update:
  "effects (fold (\<lambda>(key, a). updateTelemetryEnablements a u e) reg s) =
     effects s @ map FireEnableStates
       (filter (\<lambda>a. case lookup_logger s a of Some lg \<Rightarrow> apiObject lg | None \<Rightarrow> False)
          (map snd reg))"
proof (induction reg arbitrary: s)
  case Nil
  then show ?case by simp
next
  case (Cons p reg)
  obtain key a where p: "p = (key, a)" by (cases p)
  have same: "(case lookup_logger (updateTelemetryEnablements a u e s) b of
                 Some lg \<Rightarrow> apiObject lg | None \<Rightarrow> False)
            = (case lookup_logger s b of Some lg \<Rightarrow> apiObject lg | None \<Rightarrow> False)" for b
    by (simp add: lookup_updateTelemetryEnablements split: option.splits)
  have step: "effects (updateTelemetryEnablements a u e s) =
      effects s @ (if (case lookup_logger s a of Some lg \<Rightarrow> apiObject lg | None \<Rightarrow> False)
                   then [FireEnableStates a] else [])"
    by (simp add: updateTelemetryEnablements_def split: option.splits)
  show ?case
    by (simp add: p Cons.IH same step)
qed

section \<open>The level-change handler, step by step\<close>

lemma set_alist_update:
  "p \<in> set (AList.update k v al) \<Longrightarrow> p = (k, v) \<or> p \<in> set al"
  by (induction al) (auto split: if_splits)

lemma set_alist_delete: "p \<in> set (AList.delete k al) \<Longrightarrow> p \<in> set al \<and> fst p \<noteq> k"
  by (auto simp add: AList.delete_eq)

lemma remove_disposed_fold:
  "p \<in> set (fold (\<lambda>(key, a) reg.
                 (case lookup_logger s a of
                    Some lg \<Rightarrow> (if isDisposed lg then AList.delete key reg else reg)
                  | None \<Rightarrow> reg)) xs reg) \<Longrightarrow>
   p \<in> set reg \<and>
   (\<forall>a lg. (fst p, a) \<in> set xs \<longrightarrow> lookup_logger s a = Some lg \<longrightarrow> \<not> isDisposed lg)"
proof (induction xs arbitrary: reg)
  case Nil
  then show ?case by simp
next
  case (Cons x xs)
  obtain key a where x: "x = (key, a)" by (cases x)
  let ?reg' = "(case lookup_logger s a of
                    Some lg \<Rightarrow> (if isDisposed lg then AList.delete key reg else reg)
                  | None \<Rightarrow> reg)"
  from Cons.prems have "p \<in> set (fold (\<lambda>(key, a) reg.
                 (case lookup_logger s a of
                    Some lg \<Rightarrow> (if isDisposed lg then AList.delete key reg else reg)
                  | None \<Rightarrow> reg)) xs ?reg')"
    by (simp add: x)
  from Cons.IH [OF this]
  have in_reg': "p \<in> set ?reg'"
    and rest: "\<forall>a lg. (fst p, a) \<in> set xs \<longrightarrow> lookup_logger s a = Some lg \<longrightarrow> \<not> isDisposed lg"
    by blast+
  from in_reg' have "p \<in> set reg"
    by (auto split: option.splits if_splits dest: set_alist_delete)
  moreover have "lookup_logger s a = Some lg \<Longrightarrow> fst p = key \<Longrightarrow> \<not> isDisposed lg" for lg
    using in_reg' by (auto split: option.splits if_splits dest: set_alist_delete)
  ultimately show ?case using rest by (auto simp add: x)
qed

lemma remove_disposed_live:
  assumes "(key, a) \<in> set (telemetryLoggers (remove_disposed s))"
  shows "(key, a) \<in> set (telemetryLoggers s)"
    and "lookup_logger s a = Some lg \<Longrightarrow> \<not> isDisposed lg"
proof -
  from assms have m: "(key, a) \<in> set (fold (\<lambda>(key, a) reg.
                 (case lookup_logger s a of
                    Some lg \<Rightarrow> (if isDisposed lg then AList.delete key reg else reg)
                  | None \<Rightarrow> reg)) (telemetryLoggers s) (telemetryLoggers s))"
    by (simp add: remove_disposed_def)
  from remove_disposed_fold [OF m] show "(key, a) \<in> set (telemetryLoggers s)" by simp
  from remove_disposed_fold [OF m] show "lookup_logger s a = Some lg \<Longrightarrow> \<not> isDisposed lg"
    by auto
qed

lemma remove_disposed_fields [simp]:
  "loggerObjects (remove_disposed s) = loggerObjects s"
  "level (remove_disposed s) = level s"
  "productConfig (remove_disposed s) = productConfig s"
  "oldTelemetryEnablement (remove_disposed s) = oldTelemetryEnablement s"
  "telemetryIsSupported (remove_disposed s) = telemetryIsSupported s"
  "logLevelIsTrace (remove_disposed s) = logLevelIsTrace s"
  "effects (remove_disposed s) = effects s"
  by (simp_all add: remove_disposed_def)

lemma remove_disposed_registry_cong:
  assumes "loggerObjects s' = loggerObjects s" and "telemetryLoggers s' = telemetryLoggers s"
  shows "telemetryLoggers (remove_disposed s') = telemetryLoggers (remove_disposed s)"
proof -
  have "lookup_logger s' = lookup_logger s"
    using assms(1) by (simp add: lookup_logger_def fun_eq_iff)
  then show ?thesis
    by (simp add: remove_disposed_def assms(2))
qed

lemma getTelemetry_emit [simp]:
  "getTelemetryConfiguration (emit e s) = getTelemetryConfiguration s"
  "getTelemetryDetails (emit e s) = getTelemetryDetails s"
  by (simp_all add: getTelemetryConfiguration_def getTelemetryDetails_def)

lemma onDidChangeTelemetryLevel_fields:
  "level (onDidChangeTelemetryLevel l s) = l"
  "productConfig (onDidChangeTelemetryLevel l s) = productConfig s"
  "telemetryLoggers (onDidChangeTelemetryLevel l s) = telemetryLoggers (remove_disposed s)"
  "length (loggerObjects (onDidChangeTelemetryLevel l s)) = length (loggerObjects s)"
  by (simp_all add: onDidChangeTelemetryLevel_def Let_def update_all_def updateLoggerVisibility_def
      remove_disposed_registry_cong [of "s\<lparr>oldTelemetryEnablement := Some (getTelemetryConfiguration s), level := l\<rparr>" s])

lemma getTelemetryDetails_level_change:
  "getTelemetryDetails (onDidChangeTelemetryLevel l s) = getTelemetryDetails (s\<lparr>level := l\<rparr>)"
  by (simp add: getTelemetryDetails_def onDidChangeTelemetryLevel_fields)

lemma lookup_level_change:
  "lookup_logger (onDidChangeTelemetryLevel l s) b =
     (case lookup_logger s b of
        None \<Rightarrow> None
      | Some lg \<Rightarrow>
          Some (if b \<in> snd ` set (telemetryLoggers (remove_disposed s)) \<and> apiObject lg
                then lg\<lparr>telemetryEnablements :=
                         \<lparr>isUsageEnabled = isUsageEnabled (getTelemetryDetails (s\<lparr>level := l\<rparr>)),
                          isErrorsEnabled = isErrorsEnabled (getTelemetryDetails (s\<lparr>level := l\<rparr>))\<rparr>\<rparr>
                else lg))"
proof -
  let ?s2 = "s\<lparr>oldTelemetryEnablement := Some (getTelemetryConfiguration s), level := l\<rparr>"
  have reg: "telemetryLoggers (remove_disposed ?s2) = telemetryLoggers (remove_disposed s)"
    by (rule remove_disposed_registry_cong) simp_all
  have d: "getTelemetryDetails ?s2 = getTelemetryDetails (s\<lparr>level := l\<rparr>)"
    by (simp add: getTelemetryDetails_def)
  have l: "lookup_logger (remove_disposed ?s2) b = lookup_logger s b"
    by (simp add: lookup_logger_def)
  have "lookup_logger (onDidChangeTelemetryLevel l s) b =
        lookup_logger (update_all (getTelemetryDetails ?s2) (remove_disposed ?s2)) b"
    by (simp add: onDidChangeTelemetryLevel_def Let_def updateLoggerVisibility_def)
  also have "\<dots> = (case lookup_logger s b of
        None \<Rightarrow> None
      | Some lg \<Rightarrow>
          Some (if b \<in> snd ` set (telemetryLoggers (remove_disposed s)) \<and> apiObject lg
                then lg\<lparr>telemetryEnablements :=
                         \<lparr>isUsageEnabled = isUsageEnabled (getTelemetryDetails (s\<lparr>level := l\<rparr>)),
                          isErrorsEnabled = isErrorsEnabled (getTelemetryDetails (s\<lparr>level := l\<rparr>))\<rparr>\<rparr>
                else lg))"
    unfolding update_all_def lookup_fold_update reg d l ..
  finally show ?thesis .
qed

lemma level_change_effects:
  "effects (onDidChangeTelemetryLevel l s) =
     effects s
     @ map FireEnableStates
         (filter (\<lambda>a. case lookup_logger s a of Some lg \<Rightarrow> apiObject lg | None \<Rightarrow> False)
            (map snd (telemetryLoggers (remove_disposed s))))
     @ (if getTelemetryConfiguration s \<noteq> getTelemetryConfiguration (onDidChangeTelemetryLevel l s)
        then [FireTelemetryEnabled (getTelemetryConfiguration (onDidChangeTelemetryLevel l s))]
        else [])
     @ [FireTelemetryConfiguration (getTelemetryDetails (onDidChangeTelemetryLevel l s)),
        SetVisibility (telemetryIsSupported s \<and> logLevelIsTrace s)]"
proof -
  let ?s2 = "s\<lparr>oldTelemetryEnablement := Some (getTelemetryConfiguration s), level := l\<rparr>"
  define s4 where "s4 = update_all (getTelemetryDetails ?s2) (remove_disposed ?s2)"
  have reg: "telemetryLoggers (remove_disposed ?s2) = telemetryLoggers (remove_disposed s)"
    by (rule remove_disposed_registry_cong) simp_all
  have l: "lookup_logger (remove_disposed ?s2) b = lookup_logger s b" for b
    by (simp add: lookup_logger_def)
  have e4: "effects s4 = effects s @ map FireEnableStates
         (filter (\<lambda>a. case lookup_logger s a of Some lg \<Rightarrow> apiObject lg | None \<Rightarrow> False)
            (map snd (telemetryLoggers (remove_disposed s))))"
    unfolding s4_def update_all_def effects_fold_update reg l by simp
  have f4: "level s4 = l" "productConfig s4 = productConfig s"
    "oldTelemetryEnablement s4 = Some (getTelemetryConfiguration s)"
    "telemetryIsSupported s4 = telemetryIsSupported s" "logLevelIsTrace s4 = logLevelIsTrace s"
    by (simp_all add: s4_def update_all_def)
  have c: "getTelemetryConfiguration (onDidChangeTelemetryLevel l s) = (l = USAGE)"
    by (simp add: getTelemetryConfiguration_def onDidChangeTelemetryLevel_fields)
  have c4: "getTelemetryConfiguration s4 = (l = USAGE)"
    unfolding getTelemetryConfiguration_def [of s4] by (simp only: f4)
  have d: "getTelemetryDetails (onDidChangeTelemetryLevel l s) = getTelemetryDetails s4"
    unfolding getTelemetryDetails_def [of s4] getTelemetryDetails_def [of "onDidChangeTelemetryLevel l s"]
    by (simp only: f4 onDidChangeTelemetryLevel_fields)
  have "onDidChangeTelemetryLevel l s =
      updateLoggerVisibility
        (emit (FireTelemetryConfiguration
                 (getTelemetryDetails
                    (if oldTelemetryEnablement s4 \<noteq> Some (getTelemetryConfiguration s4)
                     then emit (FireTelemetryEnabled (getTelemetryConfiguration s4)) s4 else s4)))
           (if oldTelemetryEnablement s4 \<noteq> Some (getTelemetryConfiguration s4)
            then emit (FireTelemetryEnabled (getTelemetryConfiguration s4)) s4 else s4))"
    unfolding onDidChangeTelemetryLevel_def Let_def s4_def ..
  then have "effects (onDidChangeTelemetryLevel l s) =
      effects s4
      @ (if getTelemetryConfiguration s \<noteq> (l = USAGE) then [FireTelemetryEnabled (l = USAGE)] else [])
      @ [FireTelemetryConfiguration (getTelemetryDetails s4),
         SetVisibility (telemetryIsSupported s \<and> logLevelIsTrace s)]"
    by (simp add: updateLoggerVisibility_def f4 c4)
  then show ?thesis by (simp only: e4 c d append_assoc)
qed

section \<open>Disposal is kept\<close>

lemma dispose_fields [simp]:
  "telemetryLoggers (snd (dispose a s)) = telemetryLoggers s"
  "length (loggerObjects (snd (dispose a s))) = length (loggerObjects s)"
  by (simp_all add: dispose_def Let_def split: option.splits completion.splits)

lemma dispose_lookup_other:
  "b \<noteq> a \<Longrightarrow> lookup_logger (snd (dispose a s)) b = lookup_logger s b"
  by (simp add: dispose_def Let_def lookup_logger_store split: option.splits completion.splits)

lemma dispose_lookup_self:
  "lookup_logger s a = Some lg \<Longrightarrow>
   \<exists>lg'. lookup_logger (snd (dispose a s)) a = Some lg' \<and> sender lg' = None"
  by (auto simp add: dispose_def Let_def lookup_logger_store split: option.splits completion.splits)
     (auto simp add: lookup_logger_def split: if_splits)

lemma instantiateLogger_state:
  "loggerObjects (snd (instantiateLogger ext snd_cap options s)) =
     loggerObjects s @
       [(new_logger snd_cap options ext (hostInLoggingOnlyMode s) (getBuiltInCommonProperties s ext)
           \<lparr> isUsageEnabled = isUsageEnabled (getTelemetryDetails s),
             isErrorsEnabled = isErrorsEnabled (getTelemetryDetails s) \<rparr>)\<lparr>apiObject := True\<rparr>]"
  "telemetryLoggers (snd (instantiateLogger ext snd_cap options s)) =
     AList.update (ext_identifier ext) (length (loggerObjects s)) (telemetryLoggers s)"
  "fst (instantiateLogger ext snd_cap options s) = length (loggerObjects s)"
  by (simp_all add: instantiateLogger_def Let_def apiTelemetryLogger_def lookup_logger_def
      store_logger_def new_logger_def)

lemma instantiateLogger_lookup_old:
  "b < length (loggerObjects s) \<Longrightarrow>
   lookup_logger (snd (instantiateLogger ext snd_cap options s)) b = lookup_logger s b"
  by (simp add: lookup_logger_def instantiateLogger_state nth_append)

lemma onExtensionError_registry:
  "p \<in> set (telemetryLoggers (snd (onExtensionError redact ext err s))) \<Longrightarrow>
   p \<in> set (telemetryLoggers s)"
proof -
  have "logError redact a e d s = (c, s') \<Longrightarrow> telemetryLoggers s' = telemetryLoggers s"
    for a e d c s'
    using logError_frame(2) [of redact a e d s] by simp
  then show "p \<in> set (telemetryLoggers (snd (onExtensionError redact ext err s))) \<Longrightarrow>
    p \<in> set (telemetryLoggers s)"
    by (auto simp add: onExtensionError_def dest: set_alist_delete
        split: option.splits prod.splits completion.splits if_splits)
qed

lemma disposed_at_frame:
  "disposed_at a s \<Longrightarrow> loggerObjects s' = loggerObjects s \<Longrightarrow> disposed_at a s'"
  by (simp add: disposed_at_def lookup_logger_def split: if_splits)

lemma initializeTelemetryLevel_frame [simp]:
  "loggerObjects (initializeTelemetryLevel l supported pc s) = loggerObjects s"
  "telemetryLoggers (initializeTelemetryLevel l supported pc s) = telemetryLoggers s"
  by (simp_all add: initializeTelemetryLevel_def updateLoggerVisibility_def)

lemma updateLoggerVisibility_frame [simp]:
  "loggerObjects (updateLoggerVisibility s) = loggerObjects s"
  "telemetryLoggers (updateLoggerVisibility s) = telemetryLoggers s"
  by (simp_all add: updateLoggerVisibility_def)

lemma policy_fields:
  "policy s' = policy s \<Longrightarrow> telemetryLoggers s' = telemetryLoggers s"
  "policy s' = policy s \<Longrightarrow> length (loggerObjects s') = length (loggerObjects s)"
  "policy s' = policy s \<Longrightarrow> level s' = level s"
  "policy s' = policy s \<Longrightarrow> productConfig s' = productConfig s"
  "policy s' = policy s \<Longrightarrow> oldTelemetryEnablement s' = oldTelemetryEnablement s"
  "policy s' = policy s \<Longrightarrow> telemetryIsSupported s' = telemetryIsSupported s"
  "policy s' = policy s \<Longrightarrow> logLevelIsTrace s' = logLevelIsTrace s"
  by (simp_all add: policy_def)

lemma policy_emit [simp]: "policy (emit e s) = policy s"
  by (simp add: policy_def)

lemma policy_store [simp]: "policy (store_logger a lg s) = policy s"
  by (simp add: policy_def)

lemma policy_logEvent: "policy (snd (logEvent redact a ev d s)) = policy s"
  by (simp add: logEvent_def Let_def split: option.splits completion.splits)

lemma policy_call_handle: "policy (snd (call_handle redact c s)) = policy s"
proof (cases c)
  case (HLogUsage a ev d)
  then show ?thesis by (simp add: logUsage_def policy_logEvent split: option.splits)
next
  case (HLogError a e d)
  then show ?thesis
    by (simp add: logError_def policy_logEvent split: option.splits EventNameOrException.splits)
next
  case (HDispose a)
  then show ?thesis
    by (simp add: dispose_def Let_def split: option.splits completion.splits)
qed

lemma policy_handle_steps: "handle_steps redact ok s s' \<Longrightarrow> policy s' = policy s"
  by (induction rule: handle_steps.induct) (simp_all add: policy_call_handle)

lemma handle_steps_trans:
  "handle_steps redact ok s1 s2 \<Longrightarrow> handle_steps redact ok s0 s1 \<Longrightarrow> handle_steps redact ok s0 s2"
  by (induction rule: handle_steps.induct) (auto intro: handle_steps.intros)

lemma run_listener_steps:
  "\<forall>c \<in> set cs. ok c \<Longrightarrow> handle_steps redact ok s (run_listener redact cs s)"
proof (induction cs arbitrary: s)
  case Nil
  then show ?case by (simp add: handle_steps_refl)
next
  case (Cons c cs)
  obtain r s1 where r: "call_handle redact c s = (r, s1)" by (cases "call_handle redact c s")
  from Cons.prems have "ok c" by simp
  from handle_steps_call [where redact = redact and ok = ok and s = s and ?s1.0 = s and c = c,
      OF handle_steps_refl \<open>ok c\<close>] r
  have one: "handle_steps redact ok s s1" by simp
  show ?case
  proof (cases r)
    case (Normal u)
    from Cons.prems have "\<forall>c \<in> set cs. ok c" by simp
    from Cons.IH [OF this, of s1] one have "handle_steps redact ok s (run_listener redact cs s1)"
      by (rule handle_steps_trans)
    with r Normal show ?thesis by simp
  next
    case Throw
    with r one show ?thesis by simp
  qed
qed

lemma run_listeners_steps:
  assumes "\<forall>f \<in> set fs. \<forall>st. \<forall>c \<in> set (f st). ok c"
  shows "handle_steps redact ok s (fold (\<lambda>listener st. run_listener redact (listener st) st) fs s)"
  using assms
proof (induction fs arbitrary: s)
  case Nil
  then show ?case by (simp add: handle_steps_refl)
next
  case (Cons f fs)
  from Cons.prems have "\<forall>c \<in> set (f s). ok c" by simp
  then have one: "handle_steps redact ok s (run_listener redact (f s) s)"
    by (rule run_listener_steps)
  from Cons.prems have "\<forall>f \<in> set fs. \<forall>st. \<forall>c \<in> set (f st). ok c" by simp
  from Cons.IH [OF this, of "run_listener redact (f s) s"] one show ?case
    by (simp add: handle_steps_trans)
qed

lemma fire_steps:
  assumes "\<forall>f \<in> set fs. \<forall>st. \<forall>c \<in> set (f st). ok c"
  shows "handle_steps redact ok s (fire redact fs e s)"
  unfolding fire_def
  by (rule handle_steps_trans
      [OF run_listeners_steps [OF assms] handle_steps_emit [OF handle_steps_refl]])

text \<open>A push with listeners is the push, then calls on handles.\<close>

lemma listening_push_steps:
  assumes "\<forall>f \<in> set (listeners a). \<forall>st. \<forall>c \<in> set (f st). ok c"
  shows "handle_steps redact ok (updateTelemetryEnablements a u e s)
           (updateTelemetryEnablements_listening redact listeners a u e s)"
proof (cases "lookup_logger s a")
  case None
  then show ?thesis
    by (simp add: updateTelemetryEnablements_def updateTelemetryEnablements_listening_def
        handle_steps_refl)
next
  case (Some lg)
  show ?thesis
  proof (cases "apiObject lg")
    case True
    with Some show ?thesis
      using run_listeners_steps [OF assms, of redact]
      by (simp add: updateTelemetryEnablements_def updateTelemetryEnablements_listening_def
          fire_def)
  next
    case False
    with Some show ?thesis
      by (simp add: updateTelemetryEnablements_def updateTelemetryEnablements_listening_def
          handle_steps_refl)
  qed
qed

lemma listening_push_steps_any:
  "handle_steps redact (\<lambda>c. True) (updateTelemetryEnablements a u e s)
     (updateTelemetryEnablements_listening redact listeners a u e s)"
  by (rule listening_push_steps) simp

lemma policy_updateTelemetryEnablements [simp]:
  "policy (updateTelemetryEnablements a u e s) = policy s"
  by (simp add: policy_def)

lemma policy_listening_push [simp]:
  "policy (updateTelemetryEnablements_listening redact listeners a u e s) = policy s"
  using policy_handle_steps [OF listening_push_steps_any [of redact a u e s listeners]] by simp

lemma policy_update_all_listening:
  "policy (fold (\<lambda>(key, a). updateTelemetryEnablements_listening redact listeners a u e) reg s)
     = policy s"
  by (induction reg arbitrary: s) (simp_all split: prod.splits)

text \<open>Disposal is kept by calls on handles, so by a push with listeners.\<close>

lemma disposed_at_call_handle:
  assumes "disposed_at a s"
  shows "disposed_at a (snd (call_handle redact c s))"
proof -
  from assms obtain lg where lg: "lookup_logger s a = Some lg" "sender lg = None"
    by (auto simp add: disposed_at_def split: option.splits)
  show ?thesis
  proof (cases c)
    case (HLogUsage b ev d)
    then show ?thesis by (intro disposed_at_frame [OF assms]) simp
  next
    case (HLogError b e d)
    then show ?thesis by (intro disposed_at_frame [OF assms]) simp
  next
    case (HDispose b)
    show ?thesis
    proof (cases "b = a")
      case True
      with dispose_lookup_self [OF lg(1)] HDispose show ?thesis
        by (auto simp add: disposed_at_def)
    next
      case False
      with HDispose lg show ?thesis
        by (simp add: disposed_at_def dispose_lookup_other)
    qed
  qed
qed

lemma disposed_at_emit [simp]: "disposed_at a (emit e s) = disposed_at a s"
  by (simp add: disposed_at_def)

lemma disposed_at_handle_steps:
  "handle_steps redact ok s s' \<Longrightarrow> disposed_at a s \<Longrightarrow> disposed_at a s'"
  by (induction rule: handle_steps.induct) (simp_all add: disposed_at_call_handle)

lemma disposed_at_updateTelemetryEnablements:
  "disposed_at a s \<Longrightarrow> disposed_at a (updateTelemetryEnablements b u e s)"
  by (auto simp add: disposed_at_def lookup_updateTelemetryEnablements split: option.splits)

lemma disposed_at_listening_push:
  "disposed_at a s \<Longrightarrow>
   disposed_at a (updateTelemetryEnablements_listening redact listeners b u e s)"
  using disposed_at_handle_steps [OF listening_push_steps_any [of redact b u e s listeners]]
  by (simp add: disposed_at_updateTelemetryEnablements)

lemma disposed_at_update_all_listening:
  "disposed_at a s \<Longrightarrow>
   disposed_at a
     (fold (\<lambda>(key, b). updateTelemetryEnablements_listening redact listeners b u e) reg s)"
  by (induction reg arbitrary: s) (simp_all add: disposed_at_listening_push split: prod.splits)

text \<open>
  The handler with listeners: from the state the push loop leaves, firing the
  coordinator's events and setting the visibility are steps.
\<close>

lemma listening_change_steps:
  assumes "\<forall>f \<in> set (enabledListeners @ configurationListeners). \<forall>st. \<forall>c \<in> set (f st). ok c"
  shows "handle_steps redact ok
     (update_all_listening redact listeners
        (getTelemetryDetails (s\<lparr>oldTelemetryEnablement := Some (getTelemetryConfiguration s), level := l\<rparr>))
        (remove_disposed (s\<lparr>oldTelemetryEnablement := Some (getTelemetryConfiguration s), level := l\<rparr>)))
     (onDidChangeTelemetryLevel_listening redact listeners enabledListeners configurationListeners l s)"
proof -
  define s4 where "s4 = update_all_listening redact listeners
        (getTelemetryDetails (s\<lparr>oldTelemetryEnablement := Some (getTelemetryConfiguration s), level := l\<rparr>))
        (remove_disposed (s\<lparr>oldTelemetryEnablement := Some (getTelemetryConfiguration s), level := l\<rparr>))"
  define s5 where "s5 =
     (if oldTelemetryEnablement s4 \<noteq> Some (getTelemetryConfiguration s4)
      then fire redact enabledListeners (FireTelemetryEnabled (getTelemetryConfiguration s4)) s4
      else s4)"
  have eq: "onDidChangeTelemetryLevel_listening redact listeners enabledListeners configurationListeners l s =
      updateLoggerVisibility
        (fire redact configurationListeners (FireTelemetryConfiguration (getTelemetryDetails s5)) s5)"
    unfolding onDidChangeTelemetryLevel_listening_def Let_def s5_def s4_def ..
  from assms have en: "\<forall>f \<in> set enabledListeners. \<forall>st. \<forall>c \<in> set (f st). ok c"
    and co: "\<forall>f \<in> set configurationListeners. \<forall>st. \<forall>c \<in> set (f st). ok c"
    by auto
  have a: "handle_steps redact ok s4 s5"
    unfolding s5_def by (simp add: fire_steps [OF en] handle_steps_refl)
  have b: "handle_steps redact ok s5
      (fire redact configurationListeners (FireTelemetryConfiguration (getTelemetryDetails s5)) s5)"
    by (rule fire_steps [OF co])
  have "handle_steps redact ok s4
      (updateLoggerVisibility
        (fire redact configurationListeners (FireTelemetryConfiguration (getTelemetryDetails s5)) s5))"
    unfolding updateLoggerVisibility_def
    by (rule handle_steps_emit [OF handle_steps_trans [OF b a]])
  then show ?thesis unfolding eq s4_def [symmetric] .
qed

lemma listening_change_steps_any:
  "handle_steps redact (\<lambda>c. True)
     (update_all_listening redact listeners
        (getTelemetryDetails (s\<lparr>oldTelemetryEnablement := Some (getTelemetryConfiguration s), level := l\<rparr>))
        (remove_disposed (s\<lparr>oldTelemetryEnablement := Some (getTelemetryConfiguration s), level := l\<rparr>)))
     (onDidChangeTelemetryLevel_listening redact listeners enabledListeners configurationListeners l s)"
  by (rule listening_change_steps) simp

text \<open>The handler with listeners, field by field.\<close>

lemma listening_change_policy:
  "policy (onDidChangeTelemetryLevel_listening redact listeners enabledListeners configurationListeners l s) =
   policy (update_all_listening redact listeners
        (getTelemetryDetails (s\<lparr>oldTelemetryEnablement := Some (getTelemetryConfiguration s), level := l\<rparr>))
        (remove_disposed (s\<lparr>oldTelemetryEnablement := Some (getTelemetryConfiguration s), level := l\<rparr>)))"
  by (rule policy_handle_steps [OF listening_change_steps_any])

lemma listening_change_fields:
  "level (onDidChangeTelemetryLevel_listening redact listeners enabledListeners configurationListeners l s) = l"
  "productConfig (onDidChangeTelemetryLevel_listening redact listeners enabledListeners configurationListeners l s) = productConfig s"
  "telemetryLoggers (onDidChangeTelemetryLevel_listening redact listeners enabledListeners configurationListeners l s)
     = telemetryLoggers (remove_disposed s)"
  "length (loggerObjects (onDidChangeTelemetryLevel_listening redact listeners enabledListeners configurationListeners l s))
     = length (loggerObjects s)"
proof -
  let ?s2 = "s\<lparr>oldTelemetryEnablement := Some (getTelemetryConfiguration s), level := l\<rparr>"
  let ?s4 = "update_all_listening redact listeners (getTelemetryDetails ?s2) (remove_disposed ?s2)"
  have "policy ?s4 = policy (remove_disposed ?s2)"
    unfolding update_all_listening_def by (rule policy_update_all_listening)
  with listening_change_policy [of redact listeners enabledListeners configurationListeners l s]
  have p: "policy (onDidChangeTelemetryLevel_listening redact listeners enabledListeners configurationListeners l s)
      = policy (remove_disposed ?s2)"
    by simp
  have reg: "telemetryLoggers (remove_disposed ?s2) = telemetryLoggers (remove_disposed s)"
    by (rule remove_disposed_registry_cong) simp_all
  from policy_fields(3) [OF p] show "level (onDidChangeTelemetryLevel_listening redact listeners enabledListeners configurationListeners l s) = l"
    by simp
  from policy_fields(4) [OF p]
  show "productConfig (onDidChangeTelemetryLevel_listening redact listeners enabledListeners configurationListeners l s) = productConfig s"
    by simp
  from policy_fields(1) [OF p] reg
  show "telemetryLoggers (onDidChangeTelemetryLevel_listening redact listeners enabledListeners configurationListeners l s)
     = telemetryLoggers (remove_disposed s)"
    by simp
  from policy_fields(2) [OF p]
  show "length (loggerObjects (onDidChangeTelemetryLevel_listening redact listeners enabledListeners configurationListeners l s))
     = length (loggerObjects s)"
    by simp
qed

lemma disposed_at_listening_change:
  assumes "disposed_at a s"
  shows "disposed_at a (onDidChangeTelemetryLevel_listening redact listeners enabledListeners configurationListeners l s)"
proof -
  let ?s2 = "s\<lparr>oldTelemetryEnablement := Some (getTelemetryConfiguration s), level := l\<rparr>"
  have "disposed_at a (remove_disposed ?s2)"
    by (rule disposed_at_frame [OF assms]) simp
  then have "disposed_at a
      (update_all_listening redact listeners (getTelemetryDetails ?s2) (remove_disposed ?s2))"
    unfolding update_all_listening_def by (rule disposed_at_update_all_listening)
  then show ?thesis
    by (rule disposed_at_handle_steps [OF listening_change_steps_any])
qed

lemma disposed_at_exec:
  assumes "disposed_at a s"
  shows "disposed_at a (exec redact c s)"
proof -
  from assms obtain lg where lg: "lookup_logger s a = Some lg" "sender lg = None"
    by (auto simp add: disposed_at_def split: option.splits)
  then have a: "a < length (loggerObjects s)"
    by (simp add: lookup_logger_def split: if_splits)
  show ?thesis
  proof (cases c)
    case (InitializeTelemetryLevel l supported pc)
    then show ?thesis
      by (intro disposed_at_frame [OF assms]) simp
  next
    case (InstantiateLogger ext snd_cap options)
    then show ?thesis using assms a
      by (simp add: disposed_at_def instantiateLogger_lookup_old)
  next
    case (OnDidChangeTelemetryLevel l)
    then show ?thesis using lg
      by (simp add: disposed_at_def lookup_level_change)
  next
    case (OnDidChangeTelemetryLevelListening listeners enabledListeners configurationListeners l)
    then show ?thesis using assms
      by (simp add: disposed_at_listening_change)
  next
    case (OnExtensionError ext err)
    then show ?thesis
      by (intro disposed_at_frame [OF assms]) simp
  next
    case (LogUsage b ev d)
    then show ?thesis
      by (intro disposed_at_frame [OF assms]) simp
  next
    case (LogError b e d)
    then show ?thesis
      by (intro disposed_at_frame [OF assms]) simp
  next
    case (Dispose b)
    show ?thesis
    proof (cases "b = a")
      case True
      with dispose_lookup_self [OF lg(1)] Dispose show ?thesis
        by (auto simp add: disposed_at_def)
    next
      case False
      with Dispose lg show ?thesis
        by (simp add: disposed_at_def dispose_lookup_other)
    qed
  next
    case (ChangeLogLevel b)
    then show ?thesis
      by (intro disposed_at_frame [OF assms]) simp
  qed
qed

lemma disposed_at_run: "disposed_at a s \<Longrightarrow> disposed_at a (run redact calls s)"
  unfolding run_def by (induction calls arbitrary: s) (simp_all add: disposed_at_exec)

lemma disposed_at_dispose:
  "a < length (loggerObjects s) \<Longrightarrow> disposed_at a (snd (dispose a s))"
proof -
  assume "a < length (loggerObjects s)"
  then have "lookup_logger s a = Some (loggerObjects s ! a)" by (simp add: lookup_logger_def)
  from dispose_lookup_self [OF this] show ?thesis by (auto simp add: disposed_at_def)
qed

lemma sender_update_same: "sender lg = None \<Longrightarrow> lg\<lparr>sender := None\<rparr> = lg"
  by (cases lg) simp

lemma disposed_calls_do_nothing:
  assumes "disposed_at a s"
  shows "logUsage redact a ev d s = (Normal (), s)"
    and "logError redact a e d s = (Normal (), s)"
    and "dispose a s = (Normal (), s)"
proof -
  from assms obtain lg where lg: "lookup_logger s a = Some lg" "sender lg = None"
    by (auto simp add: disposed_at_def split: option.splits)
  then have a: "a < length (loggerObjects s)" "loggerObjects s ! a = lg"
    by (simp_all add: lookup_logger_def split: if_splits)
  show "logUsage redact a ev d s = (Normal (), s)"
    using lg by (simp add: logUsage_def logEvent_def)
  show "logError redact a e d s = (Normal (), s)"
    using lg by (simp add: logError_def)
  have "(loggerObjects s)[a := lg] = loggerObjects s"
    using a by (metis list_update_id)
  then have "store_logger a (lg\<lparr>sender := None\<rparr>) s = s"
    using lg(2) by (simp add: store_logger_def sender_update_same)
  then show "dispose a s = (Normal (), s)"
    using lg by (simp add: dispose_def)
qed

section \<open>The invariant holds along every history\<close>

lemma wf_host_frame:
  assumes "wf_host s" and "loggerObjects s' = loggerObjects s"
    and "set (telemetryLoggers s') \<subseteq> set (telemetryLoggers s)"
  shows "wf_host s'"
proof -
  have "lookup_logger s' = lookup_logger s"
    using assms(2) by (simp add: lookup_logger_def fun_eq_iff)
  with assms show ?thesis
    by (auto simp add: wf_host_def)
qed

lemma wf_host_constructor: "wf_host (constructor init trace_level)"
  by (simp add: wf_host_def constructor_def lookup_logger_def)

lemma wf_host_instantiateLogger:
  assumes "wf_host s"
  shows "wf_host (snd (instantiateLogger ext snd_cap options s))"
proof -
  let ?s' = "snd (instantiateLogger ext snd_cap options s)"
  have reg: "\<forall>(key, a) \<in> set (telemetryLoggers ?s'). a < length (loggerObjects ?s')"
    using assms
    by (auto simp add: wf_host_def instantiateLogger_state dest!: set_alist_update)
  have "apiObject lg" if "lookup_logger ?s' a = Some lg" "sender lg \<noteq> None" for a lg
  proof (cases "a < length (loggerObjects s)")
    case True
    with that assms show ?thesis
      by (auto simp add: instantiateLogger_lookup_old wf_host_def)
  next
    case False
    with that(1) show ?thesis
      by (auto simp add: lookup_logger_def instantiateLogger_state nth_append split: if_splits)
  qed
  with reg show ?thesis by (auto simp add: wf_host_def)
qed

lemma wf_host_level_change:
  assumes "wf_host s"
  shows "wf_host (onDidChangeTelemetryLevel l s)"
proof -
  have "a < length (loggerObjects (onDidChangeTelemetryLevel l s))"
    if "(key, a) \<in> set (telemetryLoggers (onDidChangeTelemetryLevel l s))" for key a
    using that assms remove_disposed_live(1) [of key a s]
    by (auto simp add: onDidChangeTelemetryLevel_fields wf_host_def)
  moreover have "apiObject lg"
    if "lookup_logger (onDidChangeTelemetryLevel l s) a = Some lg" "sender lg \<noteq> None" for a lg
    using that assms
    by (auto simp add: lookup_level_change wf_host_def split: option.splits if_splits)
  ultimately show ?thesis by (auto simp add: wf_host_def)
qed

lemma wf_host_dispose:
  assumes "wf_host s"
  shows "wf_host (snd (dispose a s))"
proof -
  have "apiObject lg" if "lookup_logger (snd (dispose a s)) b = Some lg" "sender lg \<noteq> None" for b lg
  proof (cases "b = a")
    case True
    show ?thesis
    proof (cases "lookup_logger s a")
      case None
      then have "dispose a s = (Normal (), s)" by (simp add: dispose_def)
      with that assms show ?thesis by (auto simp add: wf_host_def)
    next
      case (Some lg0)
      from dispose_lookup_self [OF this] that True show ?thesis by auto
    qed
  next
    case False
    with that assms show ?thesis by (auto simp add: dispose_lookup_other wf_host_def)
  qed
  with assms show ?thesis by (auto simp add: wf_host_def)
qed

text \<open>The invariant is kept by calls on handles, so by a push with listeners.\<close>

lemma wf_host_call_handle: "wf_host s \<Longrightarrow> wf_host (snd (call_handle redact c s))"
proof (cases c)
  case (HDispose a)
  assume "wf_host s"
  then show ?thesis by (simp add: HDispose wf_host_dispose)
qed (auto intro: wf_host_frame)

lemma wf_host_emit [simp]: "wf_host (emit e s) = wf_host s"
  by (simp add: wf_host_def)

lemma wf_host_handle_steps: "handle_steps redact ok s s' \<Longrightarrow> wf_host s \<Longrightarrow> wf_host s'"
  by (induction rule: handle_steps.induct) (simp_all add: wf_host_call_handle)

lemma wf_host_updateTelemetryEnablements:
  assumes "wf_host s"
  shows "wf_host (updateTelemetryEnablements a u e s)"
proof -
  have "apiObject lg"
    if "lookup_logger (updateTelemetryEnablements a u e s) b = Some lg" "sender lg \<noteq> None" for b lg
    using that assms
    by (auto simp add: lookup_updateTelemetryEnablements wf_host_def split: option.splits if_splits)
  with assms show ?thesis by (auto simp add: wf_host_def)
qed

lemma wf_host_listening_push:
  "wf_host s \<Longrightarrow> wf_host (updateTelemetryEnablements_listening redact listeners a u e s)"
  using wf_host_handle_steps [OF listening_push_steps_any [of redact a u e s listeners]]
  by (simp add: wf_host_updateTelemetryEnablements)

lemma wf_host_update_all_listening:
  "wf_host s \<Longrightarrow>
   wf_host (fold (\<lambda>(key, a). updateTelemetryEnablements_listening redact listeners a u e) reg s)"
  by (induction reg arbitrary: s) (simp_all add: wf_host_listening_push split: prod.splits)

lemma wf_host_remove_disposed: "wf_host s \<Longrightarrow> wf_host (remove_disposed s)"
  by (rule wf_host_frame) (auto dest: remove_disposed_live(1))

lemma wf_host_listening_change:
  assumes "wf_host s"
  shows "wf_host (onDidChangeTelemetryLevel_listening redact listeners enabledListeners configurationListeners l s)"
proof -
  let ?s2 = "s\<lparr>oldTelemetryEnablement := Some (getTelemetryConfiguration s), level := l\<rparr>"
  let ?s4 = "update_all_listening redact listeners (getTelemetryDetails ?s2) (remove_disposed ?s2)"
  have "wf_host ?s2" by (rule wf_host_frame [OF assms]) simp_all
  then have "wf_host ?s4"
    unfolding update_all_listening_def
    by (intro wf_host_update_all_listening wf_host_remove_disposed)
  then show ?thesis
    by (rule wf_host_handle_steps [OF listening_change_steps_any])
qed

lemma wf_host_exec: "wf_host s \<Longrightarrow> wf_host (exec redact c s)"
proof (cases c)
  case (OnExtensionError ext err)
  assume "wf_host s"
  then show ?thesis
    by (rule wf_host_frame) (auto simp add: OnExtensionError dest: onExtensionError_registry)
qed (auto simp add: wf_host_instantiateLogger wf_host_level_change wf_host_listening_change
      wf_host_dispose intro: wf_host_frame)

lemma wf_host_run: "wf_host s \<Longrightarrow> wf_host (run redact calls s)"
  unfolding run_def by (induction calls arbitrary: s) (simp_all add: wf_host_exec)

text \<open>What a logging call does on a live logger.\<close>

lemma logEvent_live:
  assumes "lookup_logger s a = Some lg" and "sender lg = Some snd_cap"
  shows "effects (snd (logEvent redact a ev d s)) =
           effects s @
           (let eventName' = qualified_name (extension lg) ev;
                data' = mixInCommonPropsAndCleanData redact lg (case d of None \<Rightarrow> [] | Some x \<Rightarrow> x)
            in if inLoggingOnlyMode lg then [Trace eventName' data']
               else SendEventData a eventName' data' #
                    (case sendEventData snd_cap eventName' data' of
                       Throw \<Rightarrow> [] | Normal u \<Rightarrow> [Trace eventName' data']))"
  using assms by (simp add: logEvent_def Let_def split: completion.splits)

text \<open>The keys of the registry are distinct along every history.\<close>

lemma delete_as_filter:
  "AList.delete k reg = filter (\<lambda>(key, a). key \<noteq> k) reg"
  by (induction reg) auto

lemma remove_disposed_fold_filter:
  "fold (\<lambda>(key, a) reg.
           (case lookup_logger s a of
              Some lg \<Rightarrow> (if isDisposed lg then AList.delete key reg else reg)
            | None \<Rightarrow> reg)) xs reg
   = filter (\<lambda>(key, a). \<not> (\<exists>a'. (key, a') \<in> set xs \<and> disposed_at a' s)) reg"
proof (induction xs arbitrary: reg)
  case Nil
  then show ?case by simp
next
  case (Cons x xs)
  obtain k b where x: "x = (k, b)" by (cases x)
  show ?case
  proof (cases "disposed_at b s")
    case True
    then have step: "(case lookup_logger s b of
              Some lg \<Rightarrow> (if isDisposed lg then AList.delete k reg else reg)
            | None \<Rightarrow> reg) = filter (\<lambda>(key, a). key \<noteq> k) reg"
      by (simp add: disposed_at_def isDisposed_def delete_as_filter split: option.splits)
    have "filter (\<lambda>(key, a). \<not> (\<exists>a'. (key, a') \<in> set xs \<and> disposed_at a' s))
            (filter (\<lambda>(key, a). key \<noteq> k) reg)
        = filter (\<lambda>(key, a). \<not> (\<exists>a'. (key, a') \<in> set (x # xs) \<and> disposed_at a' s)) reg"
      unfolding filter_filter using True by (intro filter_cong refl) (auto simp add: x)
    then show ?thesis
      by (simp add: x step Cons.IH)
  next
    case False
    then have step: "(case lookup_logger s b of
              Some lg \<Rightarrow> (if isDisposed lg then AList.delete k reg else reg)
            | None \<Rightarrow> reg) = reg"
      by (auto simp add: disposed_at_def isDisposed_def split: option.splits)
    have "filter (\<lambda>(key, a). \<not> (\<exists>a'. (key, a') \<in> set xs \<and> disposed_at a' s)) reg
        = filter (\<lambda>(key, a). \<not> (\<exists>a'. (key, a') \<in> set (x # xs) \<and> disposed_at a' s)) reg"
      using False by (intro filter_cong refl) (auto simp add: x)
    then show ?thesis
      by (simp add: x step Cons.IH)
  qed
qed

lemma remove_disposed_registry:
  "telemetryLoggers (remove_disposed s) =
     filter (\<lambda>(key, a). \<not> (\<exists>a'. (key, a') \<in> set (telemetryLoggers s) \<and> disposed_at a' s))
       (telemetryLoggers s)"
  unfolding remove_disposed_def remove_disposed_fold_filter by simp

lemma remove_disposed_exact:
  assumes "distinct (map fst (telemetryLoggers s))"
  shows "telemetryLoggers (remove_disposed s) =
           filter (\<lambda>(key, a). \<not> disposed_at a s) (telemetryLoggers s)"
proof -
  have same: "(\<exists>a'. (key, a') \<in> set (telemetryLoggers s) \<and> disposed_at a' s) = disposed_at a s"
    if mem: "(key, a) \<in> set (telemetryLoggers s)" for key a
  proof
    assume "\<exists>a'. (key, a') \<in> set (telemetryLoggers s) \<and> disposed_at a' s"
    then obtain a' where a': "(key, a') \<in> set (telemetryLoggers s)" "disposed_at a' s" by blast
    from assms a'(1) mem have "a' = a" by (rule eq_key_imp_eq_value)
    with a'(2) show "disposed_at a s" by simp
  next
    assume "disposed_at a s"
    with mem show "\<exists>a'. (key, a') \<in> set (telemetryLoggers s) \<and> disposed_at a' s" by blast
  qed
  have "filter (\<lambda>(key, a). \<not> (\<exists>a'. (key, a') \<in> set (telemetryLoggers s) \<and> disposed_at a' s))
          (telemetryLoggers s)
      = filter (\<lambda>(key, a). \<not> disposed_at a s) (telemetryLoggers s)"
  proof (rule filter_cong [OF refl])
    fix p assume p: "p \<in> set (telemetryLoggers s)"
    obtain key a where pa: "p = (key, a)" by (cases p)
    from same [OF p [unfolded pa]]
    have "(\<not> (\<exists>a'. (key, a') \<in> set (telemetryLoggers s) \<and> disposed_at a' s))
        = (\<not> disposed_at a s)"
      by (rule arg_cong)
    then show "(case p of (key, a) \<Rightarrow>
        \<not> (\<exists>a'. (key, a') \<in> set (telemetryLoggers s) \<and> disposed_at a' s))
        = (case p of (key, a) \<Rightarrow> \<not> disposed_at a s)"
      unfolding pa prod.case .
  qed
  then show ?thesis by (simp only: remove_disposed_registry)
qed

lemma onExtensionError_registry_cases:
  "telemetryLoggers (snd (onExtensionError redact ext err s)) = telemetryLoggers s
   \<or> telemetryLoggers (snd (onExtensionError redact ext err s))
       = AList.delete ext (telemetryLoggers s)"
proof -
  have "logError redact a e d s = (c, s') \<Longrightarrow> telemetryLoggers s' = telemetryLoggers s"
    for a e d c s'
    using logError_frame(2) [of redact a e d s] by simp
  then show ?thesis
    by (auto simp add: onExtensionError_def split: option.splits prod.splits completion.splits)
qed

lemma distinct_keys_exec:
  assumes "distinct (map fst (telemetryLoggers s))"
  shows "distinct (map fst (telemetryLoggers (exec redact c s)))"
proof (cases c)
  case (InstantiateLogger ext snd_cap options)
  then show ?thesis using assms by (simp add: instantiateLogger_state distinct_update)
next
  case (OnDidChangeTelemetryLevel l)
  then show ?thesis using assms
    by (simp add: onDidChangeTelemetryLevel_fields remove_disposed_registry distinct_map_filter)
next
  case (OnDidChangeTelemetryLevelListening listeners enabledListeners configurationListeners l)
  then show ?thesis using assms
    by (simp add: listening_change_fields remove_disposed_registry distinct_map_filter)
next
  case (OnExtensionError ext err)
  then show ?thesis
    using assms onExtensionError_registry_cases [of redact ext err s]
    by (auto simp add: distinct_delete)
qed (use assms in simp_all)

lemma distinct_keys_run:
  "distinct (map fst (telemetryLoggers s)) \<Longrightarrow>
   distinct (map fst (telemetryLoggers (run redact calls s)))"
  unfolding run_def by (induction calls arbitrary: s) (simp_all add: distinct_keys_exec)

lemma distinct_keys_constructor:
  "distinct (map fst (telemetryLoggers (constructor init trace_level)))"
  by (simp add: constructor_def)

text \<open>What the push leaves behind.\<close>

lemma pushed_ok_frame:
  assumes "pushed_ok d b s" and "loggerObjects s' = loggerObjects s"
  shows "pushed_ok d b s'"
proof -
  have "lookup_logger s' = lookup_logger s"
    using assms(2) by (simp add: lookup_logger_def fun_eq_iff)
  with assms(1) show ?thesis by (simp add: pushed_ok_def)
qed

lemma pushed_ok_call_handle:
  assumes "pushed_ok d b s"
  shows "pushed_ok d b (snd (call_handle redact c s))"
proof (cases c)
  case (HLogUsage a ev x)
  then show ?thesis by (intro pushed_ok_frame [OF assms]) simp
next
  case (HLogError a e x)
  then show ?thesis by (intro pushed_ok_frame [OF assms]) simp
next
  case (HDispose a)
  show ?thesis
  proof (cases "a = b")
    case True
    from assms obtain lg where "lookup_logger s b = Some lg"
      by (auto simp add: pushed_ok_def split: option.splits)
    from dispose_lookup_self [OF this] True HDispose show ?thesis
      by (auto simp add: pushed_ok_def)
  next
    case False
    then have "b \<noteq> a" by simp
    with HDispose assms show ?thesis by (simp add: pushed_ok_def dispose_lookup_other)
  qed
qed

lemma pushed_ok_emit [simp]: "pushed_ok d b (emit e s) = pushed_ok d b s"
  by (simp add: pushed_ok_def)

lemma pushed_ok_handle_steps:
  "handle_steps redact ok s s' \<Longrightarrow> pushed_ok d b s \<Longrightarrow> pushed_ok d b s'"
  by (induction rule: handle_steps.induct) (simp_all add: pushed_ok_call_handle)

lemma pushed_ok_updateTelemetryEnablements:
  "pushed_ok \<lparr>isUsageEnabled = u, isErrorsEnabled = e\<rparr> b s \<Longrightarrow>
   pushed_ok \<lparr>isUsageEnabled = u, isErrorsEnabled = e\<rparr> b (updateTelemetryEnablements a u e s)"
  by (auto simp add: pushed_ok_def lookup_updateTelemetryEnablements split: option.splits)

lemma pushed_ok_updateTelemetryEnablements_self:
  assumes "wf_host s" and "a < length (loggerObjects s)"
  shows "pushed_ok \<lparr>isUsageEnabled = u, isErrorsEnabled = e\<rparr> a (updateTelemetryEnablements a u e s)"
proof -
  from assms(2) obtain lg where lg: "lookup_logger s a = Some lg"
    by (simp add: lookup_logger_def)
  with assms(1) have "sender lg \<noteq> None \<longrightarrow> apiObject lg" by (auto simp add: wf_host_def)
  with lg show ?thesis
    by (auto simp add: pushed_ok_def lookup_updateTelemetryEnablements)
qed

lemma pushed_ok_listening_push:
  "pushed_ok \<lparr>isUsageEnabled = u, isErrorsEnabled = e\<rparr> b s \<Longrightarrow>
   pushed_ok \<lparr>isUsageEnabled = u, isErrorsEnabled = e\<rparr> b
     (updateTelemetryEnablements_listening redact listeners a u e s)"
  using pushed_ok_handle_steps [OF listening_push_steps_any [of redact a u e s listeners]]
  by (simp add: pushed_ok_updateTelemetryEnablements)

lemma pushed_ok_listening_push_self:
  "wf_host s \<Longrightarrow> a < length (loggerObjects s) \<Longrightarrow>
   pushed_ok \<lparr>isUsageEnabled = u, isErrorsEnabled = e\<rparr> a
     (updateTelemetryEnablements_listening redact listeners a u e s)"
  using pushed_ok_handle_steps [OF listening_push_steps_any [of redact a u e s listeners]]
  by (simp add: pushed_ok_updateTelemetryEnablements_self)

lemma pushed_ok_update_all_listening:
  assumes "wf_host s" and "\<forall>(key, a) \<in> set reg. a < length (loggerObjects s)"
  shows "(\<forall>(key, a) \<in> set reg.
            pushed_ok \<lparr>isUsageEnabled = u, isErrorsEnabled = e\<rparr> a
              (fold (\<lambda>(key, a). updateTelemetryEnablements_listening redact listeners a u e) reg s))
         \<and> (\<forall>b. pushed_ok \<lparr>isUsageEnabled = u, isErrorsEnabled = e\<rparr> b s \<longrightarrow>
                 pushed_ok \<lparr>isUsageEnabled = u, isErrorsEnabled = e\<rparr> b
                   (fold (\<lambda>(key, a). updateTelemetryEnablements_listening redact listeners a u e) reg s))"
  using assms
proof (induction reg arbitrary: s)
  case Nil
  then show ?case by simp
next
  case (Cons p reg)
  obtain key a where p: "p = (key, a)" by (cases p)
  let ?s1 = "updateTelemetryEnablements_listening redact listeners a u e s"
  from Cons.prems have a: "a < length (loggerObjects s)" by (simp add: p)
  have wf1: "wf_host ?s1" using Cons.prems(1) by (rule wf_host_listening_push)
  have len: "length (loggerObjects ?s1) = length (loggerObjects s)"
    using policy_fields(2) [OF policy_listening_push [of redact listeners a u e s]] .
  from Cons.prems(2) have "\<forall>(key, a) \<in> set reg. a < length (loggerObjects ?s1)"
    by (auto simp add: len)
  from Cons.IH [OF wf1 this]
  have ih1: "\<forall>(key, a) \<in> set reg.
            pushed_ok \<lparr>isUsageEnabled = u, isErrorsEnabled = e\<rparr> a
              (fold (\<lambda>(key, a). updateTelemetryEnablements_listening redact listeners a u e) reg ?s1)"
    and ih2: "\<forall>b. pushed_ok \<lparr>isUsageEnabled = u, isErrorsEnabled = e\<rparr> b ?s1 \<longrightarrow>
                 pushed_ok \<lparr>isUsageEnabled = u, isErrorsEnabled = e\<rparr> b
                   (fold (\<lambda>(key, a). updateTelemetryEnablements_listening redact listeners a u e) reg ?s1)"
    by blast+
  have self: "pushed_ok \<lparr>isUsageEnabled = u, isErrorsEnabled = e\<rparr> a ?s1"
    using Cons.prems(1) a by (rule pushed_ok_listening_push_self)
  have keep: "pushed_ok \<lparr>isUsageEnabled = u, isErrorsEnabled = e\<rparr> b s \<Longrightarrow>
      pushed_ok \<lparr>isUsageEnabled = u, isErrorsEnabled = e\<rparr> b ?s1" for b
    by (rule pushed_ok_listening_push)
  show ?case
    using ih1 ih2 self keep by (auto simp add: p)
qed

text \<open>Listeners that dispose nothing leave every sender where it is.\<close>

lemma sender_call_handle:
  "\<not> is_dispose c \<Longrightarrow> loggerObjects (snd (call_handle redact c s)) = loggerObjects s"
  by (cases c) simp_all

lemma sender_handle_steps:
  "handle_steps redact (\<lambda>c. \<not> is_dispose c) s s' \<Longrightarrow> loggerObjects s' = loggerObjects s"
  by (induction rule: handle_steps.induct) (simp_all add: sender_call_handle)

lemma disposed_at_updateTelemetryEnablements_iff:
  "disposed_at b (updateTelemetryEnablements a u e s) = disposed_at b s"
  by (auto simp add: disposed_at_def lookup_updateTelemetryEnablements split: option.splits)

lemma disposed_at_listening_push_iff:
  assumes "\<forall>a f st c. f \<in> set (listeners a) \<and> c \<in> set (f st) \<longrightarrow> \<not> is_dispose c"
  shows "disposed_at b (updateTelemetryEnablements_listening redact listeners a u e s)
           = disposed_at b s"
proof -
  from assms have "\<forall>f \<in> set (listeners a). \<forall>st. \<forall>c \<in> set (f st). \<not> is_dispose c" by blast
  from sender_handle_steps
    [OF listening_push_steps [where ok = "\<lambda>c. \<not> is_dispose c" and listeners = listeners
        and a = a and redact = redact and u = u and e = e and s = s, OF this]]
  have "loggerObjects (updateTelemetryEnablements_listening redact listeners a u e s)
      = loggerObjects (updateTelemetryEnablements a u e s)" .
  then have "disposed_at b (updateTelemetryEnablements_listening redact listeners a u e s)
      = disposed_at b (updateTelemetryEnablements a u e s)"
    by (simp add: disposed_at_def lookup_logger_def)
  then show ?thesis by (simp add: disposed_at_updateTelemetryEnablements_iff)
qed

lemma disposed_at_update_all_listening_iff:
  assumes "\<forall>a f st c. f \<in> set (listeners a) \<and> c \<in> set (f st) \<longrightarrow> \<not> is_dispose c"
  shows "disposed_at b
           (fold (\<lambda>(key, a). updateTelemetryEnablements_listening redact listeners a u e) reg s)
         = disposed_at b s"
  by (induction reg arbitrary: s)
     (simp_all add: disposed_at_listening_push_iff [OF assms] split: prod.splits)

lemma disposed_at_cong:
  "(\<And>b. lookup_logger s' b = lookup_logger s b) \<Longrightarrow> disposed_at a s' = disposed_at a s"
  by (simp add: disposed_at_def)

lemma getTelemetryDetails_listening_change:
  "getTelemetryDetails (onDidChangeTelemetryLevel_listening redact listeners enabledListeners configurationListeners l s)
     = getTelemetryDetails (s\<lparr>level := l\<rparr>)"
  by (simp add: getTelemetryDetails_def listening_change_fields)

lemma listening_change_propagates_wf:
  assumes wf: "wf_host s" and dk: "distinct (map fst (telemetryLoggers s))"
  shows "telemetryLoggers (onDidChangeTelemetryLevel_listening redact listeners enabledListeners configurationListeners l s)
           = filter (\<lambda>(key, a). \<not> disposed_at a s) (telemetryLoggers s)"
    and "\<forall>(key, a) \<in> set (telemetryLoggers (onDidChangeTelemetryLevel_listening redact listeners enabledListeners configurationListeners l s)).
           pushed_ok
             \<lparr> isUsageEnabled =
                 isUsageEnabled (getTelemetryDetails (onDidChangeTelemetryLevel_listening redact listeners enabledListeners configurationListeners l s)),
               isErrorsEnabled =
                 isErrorsEnabled (getTelemetryDetails (onDidChangeTelemetryLevel_listening redact listeners enabledListeners configurationListeners l s)) \<rparr>
             a (onDidChangeTelemetryLevel_listening redact listeners enabledListeners configurationListeners l s)"
    and "(\<forall>a f st c. f \<in> set (listeners a) \<and> c \<in> set (f st) \<longrightarrow> \<not> is_dispose c) \<Longrightarrow>
         (\<forall>f st c. f \<in> set (enabledListeners @ configurationListeners) \<and> c \<in> set (f st)
            \<longrightarrow> \<not> is_dispose c) \<Longrightarrow>
         \<forall>(key, a) \<in> set (telemetryLoggers (onDidChangeTelemetryLevel_listening redact listeners enabledListeners configurationListeners l s)).
           \<not> disposed_at a (onDidChangeTelemetryLevel_listening redact listeners enabledListeners configurationListeners l s)"
proof -
  let ?s' = "onDidChangeTelemetryLevel_listening redact listeners enabledListeners configurationListeners l s"
  let ?s2 = "s\<lparr>oldTelemetryEnablement := Some (getTelemetryConfiguration s), level := l\<rparr>"
  let ?s3 = "remove_disposed ?s2"
  let ?u = "isUsageEnabled (getTelemetryDetails ?s2)"
  let ?e = "isErrorsEnabled (getTelemetryDetails ?s2)"
  let ?s4 = "fold (\<lambda>(key, a). updateTelemetryEnablements_listening redact listeners a ?u ?e)
               (telemetryLoggers ?s3) ?s3"
  have s4: "update_all_listening redact listeners (getTelemetryDetails ?s2) ?s3 = ?s4"
    by (simp add: update_all_listening_def)
  have steps: "handle_steps redact (\<lambda>c. True) ?s4 ?s'"
    unfolding s4 [symmetric] by (rule listening_change_steps_any)
  have reg3: "telemetryLoggers ?s3 = telemetryLoggers (remove_disposed s)"
    by (rule remove_disposed_registry_cong) simp_all
  have reg': "telemetryLoggers ?s' = telemetryLoggers (remove_disposed s)"
    by (rule listening_change_fields)
  show exact: "telemetryLoggers ?s' = filter (\<lambda>(key, a). \<not> disposed_at a s) (telemetryLoggers s)"
    unfolding reg' using dk by (rule remove_disposed_exact)
  have wf2: "wf_host ?s2" by (rule wf_host_frame [OF wf]) simp_all
  then have wf3: "wf_host ?s3" by (rule wf_host_remove_disposed)
  then have valid: "\<forall>(key, a) \<in> set (telemetryLoggers ?s3). a < length (loggerObjects ?s3)"
    by (simp add: wf_host_def)
  have d: "getTelemetryDetails ?s' = getTelemetryDetails ?s2"
    by (simp add: getTelemetryDetails_def listening_change_fields)
  from pushed_ok_update_all_listening [OF wf3 valid, of ?u ?e redact listeners]
  have "\<forall>(key, a) \<in> set (telemetryLoggers ?s3).
          pushed_ok \<lparr>isUsageEnabled = ?u, isErrorsEnabled = ?e\<rparr> a ?s4"
    by blast
  then have "\<forall>(key, a) \<in> set (telemetryLoggers ?s3).
          pushed_ok \<lparr>isUsageEnabled = ?u, isErrorsEnabled = ?e\<rparr> a ?s'"
    by (auto intro: pushed_ok_handle_steps [OF steps])
  then show "\<forall>(key, a) \<in> set (telemetryLoggers ?s').
           pushed_ok
             \<lparr> isUsageEnabled = isUsageEnabled (getTelemetryDetails ?s'),
               isErrorsEnabled = isErrorsEnabled (getTelemetryDetails ?s') \<rparr> a ?s'"
    unfolding d reg' reg3 .
  show "\<forall>(key, a) \<in> set (telemetryLoggers ?s'). \<not> disposed_at a ?s'"
    if quiet: "\<forall>a f st c. f \<in> set (listeners a) \<and> c \<in> set (f st) \<longrightarrow> \<not> is_dispose c"
      and quiet': "\<forall>f st c. f \<in> set (enabledListeners @ configurationListeners) \<and> c \<in> set (f st)
            \<longrightarrow> \<not> is_dispose c"
  proof -
    from quiet' have "\<forall>f \<in> set (enabledListeners @ configurationListeners).
        \<forall>st. \<forall>c \<in> set (f st). \<not> is_dispose c"
      by blast
    from sender_handle_steps
      [OF listening_change_steps [where ok = "\<lambda>c. \<not> is_dispose c" and redact = redact
          and listeners = listeners and l = l and s = s, OF this]]
    have objs: "loggerObjects ?s' = loggerObjects ?s4"
      unfolding s4 .
    have "disposed_at b ?s' = disposed_at b s" for b
    proof -
      have "disposed_at b ?s' = disposed_at b ?s4"
        by (simp add: disposed_at_def lookup_logger_def objs)
      also have "\<dots> = disposed_at b ?s3"
        by (rule disposed_at_update_all_listening_iff [OF quiet])
      also have "\<dots> = disposed_at b s"
        by (rule disposed_at_cong) (simp add: lookup_logger_def)
      finally show ?thesis .
    qed
    then show ?thesis unfolding exact by auto
  qed
qed

lemma logUsage_after_push:
  assumes "lookup_logger s a = Some lg" and "sender lg = Some snd_cap"
    and "isUsageEnabled (telemetryEnablements lg) = enabled"
  shows "if enabled
         then effects (snd (logUsage redact a ev d s)) =
                effects s @
                (let eventName' = qualified_name (extension lg) ev;
                     data' = mixInCommonPropsAndCleanData redact lg
                               (case d of None \<Rightarrow> [] | Some x \<Rightarrow> x)
                 in if inLoggingOnlyMode lg then [Trace eventName' data']
                    else SendEventData a eventName' data' #
                         (case sendEventData snd_cap eventName' data' of
                            Throw \<Rightarrow> [] | Normal u \<Rightarrow> [Trace eventName' data']))
         else logUsage redact a ev d s = (Normal (), s)"
proof (cases enabled)
  case True
  with assms have "logUsage redact a ev d s = logEvent redact a ev d s"
    by (simp add: logUsage_def)
  with True logEvent_live [OF assms(1,2), of redact ev d] show ?thesis by simp
next
  case False
  with assms show ?thesis by (simp add: logUsage_def)
qed

section \<open>The example coordinators, evaluated\<close>

lemma host_with_eq:
  "host_with init l snd_cap options =
     \<lparr> initData = init,
       productConfig = \<lparr> usage = True, error = True \<rparr>,
       level = l,
       telemetryIsSupported = True,
       oldTelemetryEnablement = None,
       hostInLoggingOnlyMode = isExtensionTelemetryLoggingOnly init,
       telemetryLoggers = [(''acme.tool'', 0)],
       loggerObjects = [example_logger init l snd_cap options],
       logLevelIsTrace = False,
       effects = effects (constructor init False) @ [SetVisibility False] \<rparr>"
  by (cases l)
     (simp_all add: host_with_def run_def instantiateLogger_def Let_def apiTelemetryLogger_def
        lookup_logger_def store_logger_def constructor_def
        new_logger_def getTelemetryDetails_def initializeTelemetryLevel_def
        updateLoggerVisibility_def emit_def example_logger_def example_extension_def
        getBuiltInCommonProperties_def)

lemma host_with_fields [simp]:
  "telemetryLoggers (host_with init l snd_cap options) = [(''acme.tool'', 0)]"
  "loggerObjects (host_with init l snd_cap options) = [example_logger init l snd_cap options]"
  "lookup_logger (host_with init l snd_cap options) 0 = Some (example_logger init l snd_cap options)"
  "level (host_with init l snd_cap options) = l"
  "productConfig (host_with init l snd_cap options) = \<lparr> usage = True, error = True \<rparr>"
  "hostInLoggingOnlyMode (host_with init l snd_cap options) = isExtensionTelemetryLoggingOnly init"
  by (simp_all add: host_with_eq lookup_logger_def)

lemma example_logger_fields [simp]:
  "sender (example_logger init l snd_cap options) = Some snd_cap"
  "apiObject (example_logger init l snd_cap options)"
  "telemetryEnablements (example_logger init l snd_cap options) =
     \<lparr> isUsageEnabled = (l = USAGE), isErrorsEnabled = (l = USAGE \<or> l = ERROR) \<rparr>"
  "ignoreUnhandledExtHostErrors (example_logger init l snd_cap options) =
     (case Option.bind options opt_ignoreUnhandledErrors of None \<Rightarrow> False | Some b \<Rightarrow> b)"
  "inLoggingOnlyMode (example_logger init l snd_cap options) = isExtensionTelemetryLoggingOnly init"
  "extension (example_logger init l snd_cap options) = example_extension"
  by (simp_all add: example_logger_def new_logger_def)

lemma disposed_host_fields [simp]:
  "telemetryLoggers disposed_host = [(''acme.tool'', 0)]"
  "lookup_logger disposed_host 0 =
     Some ((example_logger example_init USAGE example_sender None)\<lparr>sender := None, apiObject := False\<rparr>)"
  "effects disposed_host = effects (host_with example_init USAGE example_sender None) @ [Flush 0]"
  by (simp_all add: disposed_host_def dispose_def Let_def example_sender_def lookup_logger_store)

lemma remove_disposed_example [simp]:
  "telemetryLoggers (remove_disposed (host_with init l snd_cap options)) = [(''acme.tool'', 0)]"
  by (simp add: remove_disposed_def isDisposed_def)

lemma no_usage_host_fields [simp]:
  "telemetryLoggers no_usage_host = []"
  "level no_usage_host = NONE"
  "productConfig no_usage_host = \<lparr> usage = False, error = True \<rparr>"
  "telemetryIsSupported no_usage_host"
  "\<not> logLevelIsTrace no_usage_host"
  by (simp_all add: no_usage_host_def initializeTelemetryLevel_def updateLoggerVisibility_def
      constructor_def no_usage_product_def)

lemma logError_exception_live:
  assumes "lookup_logger s a = Some lg" and "sender lg = Some snd_cap"
    and "isErrorsEnabled (telemetryEnablements lg)"
  shows "logError redact a (Exception err) d s =
           (sendErrorData snd_cap err d, emit (SendErrorData a err d) s)"
  using assms by (simp add: logError_def)

lemma logging_only_events_traced_only:
  assumes "lookup_logger s a = Some lg" and "sender lg = Some snd_cap" and "inLoggingOnlyMode lg"
  shows "logEvent redact a ev d s =
           (Normal (),
            emit (Trace (qualified_name (extension lg) ev)
                    (mixInCommonPropsAndCleanData redact lg (case d of None \<Rightarrow> [] | Some x \<Rightarrow> x))) s)"
  using assms by (simp add: logEvent_def Let_def)

lemma listening_push_none:
  "updateTelemetryEnablements_listening redact no_listeners a u e s
     = updateTelemetryEnablements a u e s"
  by (simp add: updateTelemetryEnablements_listening_def updateTelemetryEnablements_def
      fire_def no_listeners_def split: option.splits)

lemma run_listener_single: "run_listener redact [c] s = snd (call_handle redact c s)"
proof (cases "call_handle redact c s")
  case (Pair r s')
  then show ?thesis by (cases r) simp_all
qed

lemma listening_push_none_fun:
  "updateTelemetryEnablements_listening redact no_listeners a u e
     = updateTelemetryEnablements a u e"
  by (rule ext) (rule listening_push_none)

lemma update_all_listening_none:
  "update_all_listening redact no_listeners telemetryDetails s = update_all telemetryDetails s"
  by (simp add: update_all_listening_def update_all_def listening_push_none_fun)

lemma fire_none: "fire redact [] e s = emit e s"
  by (simp add: fire_def)

lemma listening_change_none:
  "onDidChangeTelemetryLevel_listening redact no_listeners [] [] l s = onDidChangeTelemetryLevel l s"
  unfolding onDidChangeTelemetryLevel_listening_def onDidChangeTelemetryLevel_def
    update_all_listening_none fire_none ..

lemma example_facts:
  "sendEventData example_sender eventName data = Normal ()"
  "\<not> isExtensionTelemetryLoggingOnly example_init"
  by (simp_all add: example_sender_def example_init_def)

lemma displaced_host_eq:
  "displaced_host =
     \<lparr> initData = example_init,
       productConfig = \<lparr> usage = True, error = True \<rparr>,
       level = USAGE,
       telemetryIsSupported = True,
       oldTelemetryEnablement = None,
       hostInLoggingOnlyMode = False,
       telemetryLoggers = [(''acme.tool'', 1)],
       loggerObjects = [example_logger example_init USAGE example_sender None,
                        example_logger example_init USAGE example_sender None],
       logLevelIsTrace = False,
       effects = effects (constructor example_init False) @ [SetVisibility False] \<rparr>"
  by (simp add: displaced_host_def run_def instantiateLogger_def Let_def apiTelemetryLogger_def
        lookup_logger_def store_logger_def constructor_def
        new_logger_def getTelemetryDetails_def initializeTelemetryLevel_def
        updateLoggerVisibility_def emit_def example_logger_def example_extension_def
        getBuiltInCommonProperties_def example_init_def)

lemma displaced_host_fields [simp]:
  "telemetryLoggers displaced_host = [(''acme.tool'', 1)]"
  "lookup_logger displaced_host 0 = Some (example_logger example_init USAGE example_sender None)"
  "lookup_logger displaced_host (Suc 0) = Some (example_logger example_init USAGE example_sender None)"
  "level displaced_host = USAGE"
  "productConfig displaced_host = \<lparr> usage = True, error = True \<rparr>"
  by (simp_all add: displaced_host_eq lookup_logger_def)

lemma remove_disposed_displaced [simp]:
  "telemetryLoggers (remove_disposed displaced_host) = [(''acme.tool'', 1)]"
  by (simp add: remove_disposed_def isDisposed_def)

section \<open>Derived enablement\<close>

text \<open>
  C2. For every level and product configuration, \<open>getTelemetryDetails\<close> returns
  \<open>isCrashEnabled = (L \<ge> CRASH)\<close>, \<open>isErrorsEnabled = (P.error \<and> L \<ge> ERROR)\<close> and
  \<open>isUsageEnabled = (P.usage \<and> L \<ge> USAGE)\<close>; with \<open>P = {usage: true, error: true}\<close> the
  level NONE gives all three false and the level USAGE all three true.
\<close>

theorem getTelemetryDetails_spec:
  "getTelemetryDetails s =
     \<lparr> isUsageEnabled = (usage (productConfig s) \<and> level_num USAGE \<le> level_num (level s)),
       isErrorsEnabled = (error (productConfig s) \<and> level_num ERROR \<le> level_num (level s)),
       isCrashEnabled = (level_num CRASH \<le> level_num (level s)) \<rparr>
   \<and> getTelemetryDetails (s\<lparr>productConfig := \<lparr>usage = True, error = True\<rparr>, level := NONE\<rparr>) =
     \<lparr> isUsageEnabled = False, isErrorsEnabled = False, isCrashEnabled = False \<rparr>
   \<and> getTelemetryDetails (s\<lparr>productConfig := \<lparr>usage = True, error = True\<rparr>, level := USAGE\<rparr>) =
     \<lparr> isUsageEnabled = True, isErrorsEnabled = True, isCrashEnabled = True \<rparr>"
  by (simp add: getTelemetryDetails_def)

text \<open>
  C1, as the spec has it: \<open>getTelemetryConfiguration\<close> is true exactly when \<open>P.usage\<close> holds
  and \<open>L \<ge> USAGE\<close>, so it equals \<open>isUsageEnabled\<close> of \<open>getTelemetryDetails\<close>. It fails where
  the product configuration switches usage off and the level is USAGE: the function reads
  the level only.
\<close>

theorem getTelemetryConfiguration_counterexample:
  "getTelemetryConfiguration
     (initializeTelemetryLevel USAGE True (Some no_usage_product) (constructor example_init False))
   \<and> \<not> isUsageEnabled (getTelemetryDetails
     (initializeTelemetryLevel USAGE True (Some no_usage_product) (constructor example_init False)))
   \<and> \<not> (usage (productConfig
     (initializeTelemetryLevel USAGE True (Some no_usage_product) (constructor example_init False)))
        \<and> level_num USAGE \<le> level_num (level
     (initializeTelemetryLevel USAGE True (Some no_usage_product) (constructor example_init False))))"
  by (simp add: getTelemetryConfiguration_def getTelemetryDetails_def initializeTelemetryLevel_def
      updateLoggerVisibility_def emit_def no_usage_product_def constructor_def)

text \<open>
  C1, amended: \<open>getTelemetryConfiguration\<close> is true exactly when \<open>L \<ge> USAGE\<close>, whatever the
  product configuration is; \<open>isUsageEnabled\<close> of \<open>getTelemetryDetails\<close> is the conjunction of
  \<open>P.usage\<close> and \<open>getTelemetryConfiguration\<close>, so the two agree whenever \<open>P.usage\<close> is true.
\<close>

theorem getTelemetryConfiguration_level_only:
  "getTelemetryConfiguration s = (level_num USAGE \<le> level_num (level s))
   \<and> isUsageEnabled (getTelemetryDetails s) =
       (usage (productConfig s) \<and> getTelemetryConfiguration s)"
  by (cases "level s") (simp_all add: getTelemetryConfiguration_def getTelemetryDetails_def)

section \<open>The enrichment pipeline\<close>

text \<open>
  C8. For every envelope-shaped payload (one with a \<open>properties\<close> member) the pipeline
  returns the payload with only \<open>properties\<close> replaced: \<open>measurements\<close>, and every other
  member, is what it was.
\<close>

theorem measurements_unchanged:
  assumes "map_of data ''properties'' \<noteq> None"
  shows "\<exists>ps. mixInCommonPropsAndCleanData redact lg data = JObj ps
           \<and> map_of ps ''measurements'' = map_of data ''measurements''
           \<and> (\<forall>k. k \<noteq> ''properties'' \<longrightarrow> map_of ps k = map_of data k)"
  using assms by (simp add: mixInCommonPropsAndCleanData_def Let_def update_conv')

theorem measurements_unchanged_witness:
  "map_of example_envelope ''properties'' \<noteq> None
   \<and> (\<exists>ps. mixInCommonPropsAndCleanData example_redact foo_logger example_envelope = JObj ps
         \<and> map_of ps ''measurements'' = Some (JObj [(''count'', JNum 3)]))"
proof -
  have h: "map_of example_envelope ''properties'' \<noteq> None"
    by (simp add: example_envelope_def)
  from measurements_unchanged [OF h, of example_redact foo_logger]
  obtain ps where "mixInCommonPropsAndCleanData example_redact foo_logger example_envelope = JObj ps"
    and "map_of ps ''measurements'' = map_of example_envelope ''measurements''"
    by blast
  moreover have "map_of example_envelope ''measurements'' = Some (JObj [(''count'', JNum 3)])"
    by (simp add: example_envelope_def)
  ultimately show ?thesis using h by simp
qed

text \<open>
  C5, as the spec has it: a key that an additional property and a builtin property share
  is emitted with the additional property's value, since nothing mixed in later
  overwrites what is present. It fails already for the empty payload: the builtin
  properties are mixed in last, with \<open>overwrite\<close> true, and \<open>foo = 2\<close> is emitted.
\<close>

theorem enrichment_order_counterexample:
  "additionalCommonProperties foo_logger = Some [(''foo'', JNum 1)]
   \<and> commonProperties foo_logger = [(''foo'', JNum 2)]
   \<and> \<not> ignoreBuiltinCommonProperties foo_logger
   \<and> mixInCommonPropsAndCleanData (\<lambda>v. v) foo_logger [] = JObj [(''foo'', JNum 2)]"
  by (simp add: foo_logger_def new_logger_def mixInCommonPropsAndCleanData_def properties_of_def
      mixin_def)

text \<open>
  C5, amended: for every payload run through the pipeline of a logger with additional
  properties and with builtin properties not suppressed, a builtin property whose value is
  no object is emitted with the builtin value, whatever the payload and the additional
  properties have under its key; an additional property whose value is no object, under a
  key no builtin property has, is emitted with the additional value, whatever the payload
  has under its key. Properties mixed in later overwrite the ones already present.
\<close>

theorem enrichment_later_overwrites:
  assumes "additionalCommonProperties lg = Some additional"
    and "\<not> ignoreBuiltinCommonProperties lg"
    and "distinct (map fst additional)"
    and "distinct (map fst (commonProperties lg))"
  shows "\<exists>ps'. mixInCommonPropsAndCleanData redact lg data =
             (if map_of data ''properties'' \<noteq> None
              then JObj (AList.update ''properties'' (JObj ps') data) else JObj ps')
          \<and> (\<forall>k w. map_of (commonProperties lg) k = Some w \<and> (\<forall>ps. w \<noteq> JObj ps)
                \<longrightarrow> map_of ps' k = Some w)
          \<and> (\<forall>k v. map_of additional k = Some v \<and> (\<forall>ps. v \<noteq> JObj ps)
                \<and> map_of (commonProperties lg) k = None
                \<longrightarrow> map_of ps' k = Some v)"
proof -
  define c where "c = cleanData redact (properties_of data)"
  define m1 where "m1 = (case c of JObj d \<Rightarrow> mixin_props d additional True | other \<Rightarrow> additional)"
  define m2 where "m2 = mixin_props m1 (commonProperties lg) True"
  have eq: "mixInCommonPropsAndCleanData redact lg data =
             (if map_of data ''properties'' \<noteq> None
              then JObj (AList.update ''properties'' (JObj m2) data) else JObj m2)"
    using assms(1,2)
    by (simp add: mixInCommonPropsAndCleanData_def Let_def mixin_object c_def m1_def m2_def)
  have p1: "map_of m2 k = Some w"
    if "map_of (commonProperties lg) k = Some w" "\<forall>ps. w \<noteq> JObj ps" for k w
    unfolding m2_def using assms(4) that by (rule mixin_props_overwrites)
  have a1: "map_of m1 k = Some v" if "map_of additional k = Some v" "\<forall>ps. v \<noteq> JObj ps" for k v
  proof (cases c)
    case (JObj d)
    then have "m1 = mixin_props d additional True" by (simp add: m1_def)
    with mixin_props_overwrites [OF assms(3) that] show ?thesis by simp
  qed (simp_all add: m1_def that)
  have p2: "map_of m2 k = Some v"
    if "map_of additional k = Some v" "\<forall>ps. v \<noteq> JObj ps" "map_of (commonProperties lg) k = None"
    for k v
  proof -
    from that(3) have "k \<notin> fst ` set (commonProperties lg)"
      by (simp add: map_of_eq_None_iff)
    then have "map_of m2 k = map_of m1 k"
      unfolding m2_def by (rule mixin_props_other)
    with a1 [OF that(1,2)] show ?thesis by simp
  qed
  from eq p1 p2 show ?thesis by blast
qed

theorem enrichment_later_overwrites_witness:
  "additionalCommonProperties foo_bar_logger = Some [(''foo'', JNum 1), (''bar'', JNum 3)]
   \<and> commonProperties foo_bar_logger = [(''foo'', JNum 2)]
   \<and> \<not> ignoreBuiltinCommonProperties foo_bar_logger
   \<and> (\<exists>ps'. mixInCommonPropsAndCleanData example_redact foo_bar_logger [(''bar'', JNum 0)] = JObj ps'
          \<and> map_of ps' ''foo'' = Some (JNum 2)
          \<and> map_of ps' ''bar'' = Some (JNum 3))"
proof -
  have a: "additionalCommonProperties foo_bar_logger = Some [(''foo'', JNum 1), (''bar'', JNum 3)]"
    and c: "commonProperties foo_bar_logger = [(''foo'', JNum 2)]"
    and i: "\<not> ignoreBuiltinCommonProperties foo_bar_logger"
    by (simp_all add: foo_bar_logger_def new_logger_def)
  have d1: "distinct (map fst [(''foo'', JNum 1), (''bar'', JNum 3)])" by simp
  have d2: "distinct (map fst (commonProperties foo_bar_logger))" by (simp add: c)
  from enrichment_later_overwrites [OF a i d1 d2, of example_redact "[(''bar'', JNum 0)]"]
  obtain ps' where eq: "mixInCommonPropsAndCleanData example_redact foo_bar_logger [(''bar'', JNum 0)] = JObj ps'"
    and builtin: "\<forall>k w. map_of (commonProperties foo_bar_logger) k = Some w \<and> (\<forall>ps. w \<noteq> JObj ps)
                \<longrightarrow> map_of ps' k = Some w"
    and additional: "\<forall>k v. map_of [(''foo'', JNum 1), (''bar'', JNum 3)] k = Some v
                \<and> (\<forall>ps. v \<noteq> JObj ps) \<and> map_of (commonProperties foo_bar_logger) k = None
                \<longrightarrow> map_of ps' k = Some v"
    by auto
  from builtin have "map_of ps' ''foo'' = Some (JNum 2)" by (simp add: c)
  moreover from additional have "map_of ps' ''bar'' = Some (JNum 3)" by (simp add: c)
  ultimately show ?thesis using a c i eq by simp
qed

section \<open>Level changes\<close>




text \<open>
  C4, as the spec has it: \<open>onDidChangeTelemetryEnabled\<close> fires exactly when the derived
  \<open>isUsageEnabled\<close> changes across the call. It fails where the product configuration
  switches usage off: from NONE to USAGE the derived \<open>isUsageEnabled\<close> stays false, and the
  event fires with \<open>true\<close>.
\<close>

theorem level_change_events_counterexample:
  "isUsageEnabled (getTelemetryDetails (onDidChangeTelemetryLevel USAGE no_usage_host))
     = isUsageEnabled (getTelemetryDetails no_usage_host)
   \<and> effects (onDidChangeTelemetryLevel USAGE no_usage_host)
     = effects no_usage_host
       @ [FireTelemetryEnabled True,
          FireTelemetryConfiguration
            \<lparr> isUsageEnabled = False, isErrorsEnabled = True, isCrashEnabled = True \<rparr>,
          SetVisibility False]"
proof -
  have reg: "telemetryLoggers (remove_disposed no_usage_host) = []"
    by (simp add: remove_disposed_def)
  have d: "getTelemetryDetails (onDidChangeTelemetryLevel USAGE no_usage_host)
      = \<lparr> isUsageEnabled = False, isErrorsEnabled = True, isCrashEnabled = True \<rparr>"
    by (simp add: getTelemetryDetails_def onDidChangeTelemetryLevel_fields)
  have c: "getTelemetryConfiguration (onDidChangeTelemetryLevel USAGE no_usage_host)"
    "\<not> getTelemetryConfiguration no_usage_host"
    by (simp_all add: getTelemetryConfiguration_def onDidChangeTelemetryLevel_fields)
  have "effects (onDidChangeTelemetryLevel USAGE no_usage_host)
     = effects no_usage_host
       @ [FireTelemetryEnabled True,
          FireTelemetryConfiguration
            \<lparr> isUsageEnabled = False, isErrorsEnabled = True, isCrashEnabled = True \<rparr>,
          SetVisibility False]"
    by (simp add: level_change_effects reg d c)
  moreover have "\<not> isUsageEnabled (getTelemetryDetails no_usage_host)"
    by (simp add: getTelemetryDetails_def)
  ultimately show ?thesis by (simp add: d)
qed

text \<open>
  C4, amended: one call of the level-change handler adds to the trace, in this order, the
  per-logger notifications of the enablement push (one for each logger left in the
  registry that has its handle), then \<open>onDidChangeTelemetryEnabled\<close> exactly when
  \<open>getTelemetryConfiguration\<close> (the level is USAGE) differs before and after the call,
  carrying its new result, then \<open>onDidChangeTelemetryConfiguration\<close> once with the new
  details, then the visibility update; and nothing else.
\<close>

theorem level_change_events:
  "effects (onDidChangeTelemetryLevel l s) =
     effects s
     @ map FireEnableStates
         (filter (\<lambda>a. case lookup_logger s a of Some lg \<Rightarrow> apiObject lg | None \<Rightarrow> False)
            (map snd (telemetryLoggers (remove_disposed s))))
     @ (if getTelemetryConfiguration s \<noteq> getTelemetryConfiguration (onDidChangeTelemetryLevel l s)
        then [FireTelemetryEnabled (getTelemetryConfiguration (onDidChangeTelemetryLevel l s))]
        else [])
     @ [FireTelemetryConfiguration (getTelemetryDetails (onDidChangeTelemetryLevel l s)),
        SetVisibility (telemetryIsSupported s \<and> logLevelIsTrace s)]"
  by (rule level_change_effects)

theorem level_change_events_witness:
  "effects (onDidChangeTelemetryLevel USAGE (host_with example_init NONE example_sender None))
     = effects (host_with example_init NONE example_sender None)
       @ [FireEnableStates 0,
          FireTelemetryEnabled True,
          FireTelemetryConfiguration
            \<lparr> isUsageEnabled = True, isErrorsEnabled = True, isCrashEnabled = True \<rparr>,
          SetVisibility False]
   \<and> effects (onDidChangeTelemetryLevel USAGE (host_with example_init USAGE example_sender None))
     = effects (host_with example_init USAGE example_sender None)
       @ [FireEnableStates 0,
          FireTelemetryConfiguration
            \<lparr> isUsageEnabled = True, isErrorsEnabled = True, isCrashEnabled = True \<rparr>,
          SetVisibility False]"
proof -
  have d: "getTelemetryDetails (onDidChangeTelemetryLevel USAGE (host_with example_init l example_sender None))
      = \<lparr> isUsageEnabled = True, isErrorsEnabled = True, isCrashEnabled = True \<rparr>" for l
    by (simp add: getTelemetryDetails_def onDidChangeTelemetryLevel_fields)
  have c: "getTelemetryConfiguration (onDidChangeTelemetryLevel USAGE (host_with example_init l example_sender None))"
    "getTelemetryConfiguration (host_with example_init l example_sender None) = (l = USAGE)" for l
    by (simp_all add: getTelemetryConfiguration_def onDidChangeTelemetryLevel_fields)
  have v: "telemetryIsSupported (host_with example_init l example_sender None)"
    "\<not> logLevelIsTrace (host_with example_init l example_sender None)" for l
    by (simp_all add: host_with_eq)
  show ?thesis
    using level_change_events [of USAGE "host_with example_init NONE example_sender None"]
      level_change_events [of USAGE "host_with example_init USAGE example_sender None"]
    by (simp add: d c v)
qed

section \<open>Disposal\<close>

text \<open>
  C6. After \<open>dispose\<close> was called on a logger, whatever is called afterwards on the
  coordinator or on any logger, each \<open>logUsage\<close>, \<open>logError\<close> and \<open>dispose\<close> on that logger
  returns normally and leaves the whole state as it was: no entry point of the sender is
  called, \<open>flush\<close> is not called again, nothing is written to the trace.
\<close>

theorem dispose_terminal:
  assumes "a < length (loggerObjects s)"
  shows "let s1 = run redact calls (snd (dispose a s))
         in logUsage redact a ev d s1 = (Normal (), s1)
            \<and> logError redact a e d' s1 = (Normal (), s1)
            \<and> dispose a s1 = (Normal (), s1)"
proof -
  have "disposed_at a (run redact calls (snd (dispose a s)))"
    using assms by (simp add: disposed_at_dispose disposed_at_run)
  then show ?thesis
    by (simp add: Let_def disposed_calls_do_nothing)
qed

theorem dispose_terminal_witness:
  "0 < length (loggerObjects (host_with example_init USAGE example_sender None))
   \<and> (let s1 = run example_redact [OnDidChangeTelemetryLevel USAGE]
                  (snd (dispose 0 (host_with example_init USAGE example_sender None)))
      in logUsage example_redact 0 ''opened'' None s1 = (Normal (), s1)
         \<and> logError example_redact 0 (Exception (JsError ''boom'')) None s1 = (Normal (), s1)
         \<and> dispose 0 s1 = (Normal (), s1))
   \<and> effects (snd (dispose 0 (snd (dispose 0 (host_with example_init USAGE example_sender None)))))
       = effects (host_with example_init USAGE example_sender None) @ [Flush 0]"
proof -
  have h: "0 < length (loggerObjects (host_with example_init USAGE example_sender None))"
    by simp
  have twice: "dispose 0 (snd (dispose 0 (host_with example_init USAGE example_sender None)))
      = (Normal (), snd (dispose 0 (host_with example_init USAGE example_sender None)))"
    using dispose_terminal [OF h, of example_redact "[]" "''opened''" None "EventName ''opened''" None]
    by (simp add: run_def Let_def)
  have once: "effects (snd (dispose 0 (host_with example_init USAGE example_sender None)))
      = effects (host_with example_init USAGE example_sender None) @ [Flush 0]"
    using disposed_host_fields(3) by (simp add: disposed_host_def)
  show ?thesis
    using h dispose_terminal [OF h, of example_redact "[OnDidChangeTelemetryLevel USAGE]"
        "''opened''" None "Exception (JsError ''boom'')" None]
    by (simp add: twice once)
qed

section \<open>Logging-only mode\<close>

text \<open>
  C7. In logging-only mode the event path only writes the trace
  (\<open>logging_only_events_traced_only\<close>), but \<open>logError\<close> with a structured error does not
  test the mode: on a live logger with errors enabled it calls \<open>sendErrorData\<close>, and writes
  nothing to the trace.
\<close>

theorem logging_only_error_is_sent:
  "hostInLoggingOnlyMode (host_with logging_only_init USAGE example_sender None)
   \<and> lookup_logger (host_with logging_only_init USAGE example_sender None) 0
       = Some (example_logger logging_only_init USAGE example_sender None)
   \<and> inLoggingOnlyMode (example_logger logging_only_init USAGE example_sender None)
   \<and> logError example_redact 0 (Exception (JsError ''boom'')) None
       (host_with logging_only_init USAGE example_sender None)
     = (Normal (), emit (SendErrorData 0 (JsError ''boom'') None)
                     (host_with logging_only_init USAGE example_sender None))"
proof -
  have "logError example_redact 0 (Exception (JsError ''boom'')) None
          (host_with logging_only_init USAGE example_sender None)
        = (Normal (), emit (SendErrorData 0 (JsError ''boom'') None)
                    (host_with logging_only_init USAGE example_sender None))"
    by (subst logError_exception_live [where lg = "example_logger logging_only_init USAGE example_sender None"
          and snd_cap = example_sender])
       (simp_all add: example_sender_def)
  then show ?thesis by (simp add: logging_only_init_def)
qed

theorem logging_only_error_is_sent_witness:
  "effects (snd (logError example_redact 0 (Exception (JsError ''boom'')) None
                   (host_with logging_only_init USAGE example_sender None)))
     = effects (host_with logging_only_init USAGE example_sender None)
       @ [SendErrorData 0 (JsError ''boom'') None]"
  using logging_only_error_is_sent by simp

section \<open>Unhandled errors\<close>

text \<open>
  C9, as the spec has it: for a live logger that did not opt out, \<open>onExtensionError\<close>
  calls \<open>logError\<close> and returns true. It fails where the sender's \<open>sendErrorData\<close> throws:
  nothing catches the exception, so the call throws and returns nothing.
\<close>

theorem onExtensionError_throw_counterexample:
  "map_of (telemetryLoggers (host_with example_init USAGE throwing_sender None)) ''acme.tool'' = Some 0
   \<and> lookup_logger (host_with example_init USAGE throwing_sender None) 0
       = Some (example_logger example_init USAGE throwing_sender None)
   \<and> \<not> isDisposed (example_logger example_init USAGE throwing_sender None)
   \<and> \<not> ignoreUnhandledExtHostErrors (example_logger example_init USAGE throwing_sender None)
   \<and> fst (onExtensionError example_redact ''acme.tool'' (JsError ''boom'')
            (host_with example_init USAGE throwing_sender None)) = Throw"
proof -
  have "logError example_redact 0 (Exception (JsError ''boom'')) None
          (host_with example_init USAGE throwing_sender None)
        = (Throw, emit (SendErrorData 0 (JsError ''boom'') None)
                    (host_with example_init USAGE throwing_sender None))"
    by (subst logError_exception_live [where lg = "example_logger example_init USAGE throwing_sender None"
          and snd_cap = throwing_sender])
       (simp_all add: throwing_sender_def)
  then show ?thesis
    by (simp add: onExtensionError_def isDisposed_def)
qed

text \<open>
  C9, amended: \<open>onExtensionError\<close> returns false when no logger is registered under the
  identity; returns false and removes the registry entry when the registered logger is
  disposed; returns false, the state unchanged, when the live logger opted out; otherwise
  it calls that logger's \<open>logError\<close> with the error, and returns true when that call
  returns; when that call throws, so does \<open>onExtensionError\<close>.
\<close>

theorem onExtensionError_cases:
  "(map_of (telemetryLoggers s) ext = None \<longrightarrow>
      onExtensionError redact ext err s = (Normal False, s))
   \<and> (\<forall>a lg. map_of (telemetryLoggers s) ext = Some a \<and> lookup_logger s a = Some lg \<longrightarrow>
        (isDisposed lg \<longrightarrow>
           onExtensionError redact ext err s =
             (Normal False, s\<lparr>telemetryLoggers := AList.delete ext (telemetryLoggers s)\<rparr>)
           \<and> map_of (telemetryLoggers (snd (onExtensionError redact ext err s))) ext = None)
        \<and> (\<not> isDisposed lg \<and> ignoreUnhandledExtHostErrors lg \<longrightarrow>
             onExtensionError redact ext err s = (Normal False, s))
        \<and> (\<not> isDisposed lg \<and> \<not> ignoreUnhandledExtHostErrors lg \<longrightarrow>
             snd (onExtensionError redact ext err s) = snd (logError redact a (Exception err) None s)
             \<and> fst (onExtensionError redact ext err s) =
                 (case fst (logError redact a (Exception err) None s) of
                    Throw \<Rightarrow> Throw | Normal u \<Rightarrow> Normal True)))"
proof (intro conjI allI impI)
  assume "map_of (telemetryLoggers s) ext = None"
  then show "onExtensionError redact ext err s = (Normal False, s)"
    by (simp add: onExtensionError_def)
next
  fix a lg
  assume h: "map_of (telemetryLoggers s) ext = Some a \<and> lookup_logger s a = Some lg"
  {
    assume "isDisposed lg"
    with h show d: "onExtensionError redact ext err s =
        (Normal False, s\<lparr>telemetryLoggers := AList.delete ext (telemetryLoggers s)\<rparr>)"
      by (simp add: onExtensionError_def)
    show "map_of (telemetryLoggers (snd (onExtensionError redact ext err s))) ext = None"
      by (simp add: d delete_conv')
  next
    assume "\<not> isDisposed lg \<and> ignoreUnhandledExtHostErrors lg"
    with h show "onExtensionError redact ext err s = (Normal False, s)"
      by (simp add: onExtensionError_def)
  next
    assume n: "\<not> isDisposed lg \<and> \<not> ignoreUnhandledExtHostErrors lg"
    obtain c s' where r: "logError redact a (Exception err) None s = (c, s')"
      by (cases "logError redact a (Exception err) None s")
    from h n r show "snd (onExtensionError redact ext err s) =
        snd (logError redact a (Exception err) None s)"
      by (cases c) (simp_all add: onExtensionError_def)
    from h n r show "fst (onExtensionError redact ext err s) =
        (case fst (logError redact a (Exception err) None s) of
           Throw \<Rightarrow> Throw | Normal u \<Rightarrow> Normal True)"
      by (cases c) (simp_all add: onExtensionError_def)
  }
qed

theorem onExtensionError_cases_witness:
  "onExtensionError example_redact ''acme.tool'' (JsError ''boom'') (constructor example_init False)
     = (Normal False, constructor example_init False)
   \<and> onExtensionError example_redact ''acme.tool'' (JsError ''boom'') disposed_host
     = (Normal False, disposed_host\<lparr>telemetryLoggers := []\<rparr>)
   \<and> onExtensionError example_redact ''acme.tool'' (JsError ''boom'')
       (host_with example_init USAGE example_sender (Some opted_out))
     = (Normal False, host_with example_init USAGE example_sender (Some opted_out))
   \<and> onExtensionError example_redact ''acme.tool'' (JsError ''boom'')
       (host_with example_init USAGE example_sender None)
     = (Normal True, emit (SendErrorData 0 (JsError ''boom'') None)
                       (host_with example_init USAGE example_sender None))"
proof -
  have c1: "map_of (telemetryLoggers (constructor example_init False)) ''acme.tool'' = None"
    by (simp add: constructor_def)
  have r1: "onExtensionError example_redact ''acme.tool'' (JsError ''boom'') (constructor example_init False)
     = (Normal False, constructor example_init False)"
    using onExtensionError_cases [of "constructor example_init False" "''acme.tool''"
        example_redact "JsError ''boom''"] c1
    by simp
  have r2: "onExtensionError example_redact ''acme.tool'' (JsError ''boom'') disposed_host
     = (Normal False, disposed_host\<lparr>telemetryLoggers := []\<rparr>)"
    using onExtensionError_cases [of disposed_host "''acme.tool''" example_redact "JsError ''boom''"]
    by (simp add: isDisposed_def)
  have r3: "onExtensionError example_redact ''acme.tool'' (JsError ''boom'')
       (host_with example_init USAGE example_sender (Some opted_out))
     = (Normal False, host_with example_init USAGE example_sender (Some opted_out))"
    using onExtensionError_cases [of "host_with example_init USAGE example_sender (Some opted_out)"
        "''acme.tool''" example_redact "JsError ''boom''"]
    by (simp add: isDisposed_def opted_out_def)
  have l4: "logError example_redact 0 (Exception (JsError ''boom'')) None
          (host_with example_init USAGE example_sender None)
        = (Normal (), emit (SendErrorData 0 (JsError ''boom'') None)
                    (host_with example_init USAGE example_sender None))"
    by (subst logError_exception_live [where lg = "example_logger example_init USAGE example_sender None"
          and snd_cap = example_sender])
       (simp_all add: example_sender_def)
  have r4: "onExtensionError example_redact ''acme.tool'' (JsError ''boom'')
       (host_with example_init USAGE example_sender None)
     = (Normal True, emit (SendErrorData 0 (JsError ''boom'') None)
                       (host_with example_init USAGE example_sender None))"
    using onExtensionError_cases [of "host_with example_init USAGE example_sender None"
        "''acme.tool''" example_redact "JsError ''boom''"]
    by (simp add: isDisposed_def l4 prod_eq_iff)
  from r1 r2 r3 r4 show ?thesis by (intro conjI)
qed

text \<open>
  C10. For a live logger that did not opt out and whose cached \<open>isErrorsEnabled\<close> is
  false, \<open>onExtensionError\<close> returns true and the state is what it was: the error reached
  neither the sender nor the trace.
\<close>

theorem unhandled_error_true_without_logging:
  assumes "map_of (telemetryLoggers s) ext = Some a" and "lookup_logger s a = Some lg"
    and "\<not> isDisposed lg" and "\<not> ignoreUnhandledExtHostErrors lg"
    and "\<not> isErrorsEnabled (telemetryEnablements lg)"
  shows "onExtensionError redact ext err s = (Normal True, s)"
  using assms by (simp add: onExtensionError_def logError_def)

theorem unhandled_error_true_without_logging_witness:
  "onExtensionError example_redact ''acme.tool'' (JsError ''boom'')
     (host_with example_init NONE example_sender None)
   = (Normal True, host_with example_init NONE example_sender None)"
proof -
  have reg: "map_of (telemetryLoggers (host_with example_init NONE example_sender None)) ''acme.tool'' = Some 0"
    by simp
  have lg: "lookup_logger (host_with example_init NONE example_sender None) 0
      = Some (example_logger example_init NONE example_sender None)"
    by simp
  show ?thesis
    by (rule unhandled_error_true_without_logging [OF reg lg]) (simp_all add: isDisposed_def)
qed

end
